theory Spec2Isabelle
  imports Complex_Main
begin

section \<open>Errors and Python list access\<close>

text \<open>
  The exceptions the two modules can raise.  \<open>AssertionError\<close> is the \<open>assert\<close> of
  \<open>DeepFMBase.forward\<close>, \<open>IndexError\<close> is Python's "list index out of range" of a list
  subscript, \<open>AttributeError\<close> is the read of an attribute that construction did not
  set, and \<open>TorchError\<close> stands for every exception raised inside a call into the
  tensor library (shape mismatch, dimension out of range, wrong argument type).
\<close>

datatype error = AssertionError | IndexError | AttributeError | TorchError

definition ebind :: "error + 'a \<Rightarrow> ('a \<Rightarrow> error + 'b) \<Rightarrow> error + 'b" where
  "ebind r f = (case r of Inl e \<Rightarrow> Inl e | Inr v \<Rightarrow> f v)"

fun emap :: "('a \<Rightarrow> error + 'b) \<Rightarrow> 'a list \<Rightarrow> error + 'b list" where
  "emap f [] = Inr []"
| "emap f (x # xs) = ebind (f x) (\<lambda>y. ebind (emap f xs) (\<lambda>ys. Inr (y # ys)))"

definition py_get :: "'a list \<Rightarrow> int \<Rightarrow> error + 'a" where
  \<comment> \<open>the subscript \<open>xs[i]\<close>; \<open>xs[-k]\<close> is the \<open>k\<close>-th element from the end\<close>
  "py_get xs i =
     (if 0 \<le> i \<and> i < int (length xs) then Inr (xs ! nat i)
      else if - int (length xs) \<le> i \<and> i < 0 then Inr (xs ! nat (int (length xs) + i))
      else Inl IndexError)"

fun stride4 :: "'a list \<Rightarrow> 'a list" where
  \<comment> \<open>\<open>xs[::4]\<close>; \<open>xs[k::4]\<close> is \<open>stride4 (drop k xs)\<close>\<close>
  "stride4 [] = []"
| "stride4 (x # xs) = x # stride4 (drop 3 xs)"

section \<open>Tensors\<close>

text \<open>
  A tensor is a scalar (dimension 0) or a sequence of tensors along its leading
  dimension.  Tensors of the library are rectangular (\<open>rect\<close>); elements of floating
  type are modelled as real numbers, so rounding is not part of the model.  The shape
  below an empty dimension is not recorded, so a batch of zero examples is not
  represented: the statements below are about batches of at least one example.
\<close>

datatype 'a tensor = Sc 'a | Nd "'a tensor list"

fun shape :: "'a tensor \<Rightarrow> nat list" where
  "shape (Sc _) = []"
| "shape (Nd []) = [0]"
| "shape (Nd (t # ts)) = Suc (length ts) # shape t"

definition rank :: "'a tensor \<Rightarrow> nat" where
  "rank t = length (shape t)"

fun rect :: "'a tensor \<Rightarrow> bool" where
  "rect (Sc _) = True"
| "rect (Nd ts) = list_all (\<lambda>t. rect t \<and> shape t = shape (hd ts)) ts"

fun children :: "'a tensor \<Rightarrow> 'a tensor list" where
  "children (Sc _) = []"
| "children (Nd ts) = ts"

fun leaves :: "'a tensor \<Rightarrow> 'a list" where
  "leaves (Sc a) = [a]"
| "leaves (Nd ts) = concat (map leaves ts)"

definition vec :: "'a list \<Rightarrow> 'a tensor" where
  "vec v = Nd (map Sc v)"

definition mat :: "'a list list \<Rightarrow> 'a tensor" where
  "mat m = Nd (map vec m)"

definition cube :: "'a list list list \<Rightarrow> 'a tensor" where
  "cube c = Nd (map mat c)"

subsection \<open>The operations of the tensor library that the modules call\<close>

definition torch_equal :: "'a tensor \<Rightarrow> 'a tensor \<Rightarrow> bool" where
  \<comment> \<open>\<open>torch.equal\<close>: the same size and the same elements\<close>
  "torch_equal a b = (shape a = shape b \<and> leaves a = leaves b)"

definition torch_cat1 :: "'a tensor list \<Rightarrow> error + 'a tensor" where
  \<comment> \<open>\<open>torch.cat(ts, dim=1)\<close>: sizes agree except in dimension 1\<close>
  "torch_cat1 ts =
     (if ts = [] then Inl TorchError
      else if list_ex (\<lambda>t. rank t < 2) ts then Inl TorchError
      else if \<not> list_all (\<lambda>t. (shape t)[1 := 0] = (shape (hd ts))[1 := 0]) ts
        then Inl TorchError
      else Inr (Nd (map (\<lambda>i. Nd (concat (map (\<lambda>t. children (children t ! i)) ts)))
                     [0..<length (children (hd ts))])))"

definition torch_stack1 :: "'a tensor list \<Rightarrow> error + 'a tensor" where
  \<comment> \<open>\<open>torch.stack(ts, dim=1)\<close>: all sizes equal, a new dimension 1\<close>
  "torch_stack1 ts =
     (if ts = [] then Inl TorchError
      else if rank (hd ts) < 1 then Inl TorchError
      else if \<not> list_all (\<lambda>t. shape t = shape (hd ts)) ts then Inl TorchError
      else Inr (Nd (map (\<lambda>i. Nd (map (\<lambda>t. children t ! i) ts))
                     [0..<length (children (hd ts))])))"

definition torch_unsqueeze1 :: "'a tensor \<Rightarrow> error + 'a tensor" where
  \<comment> \<open>\<open>torch.unsqueeze(t, dim=1)\<close>\<close>
  "torch_unsqueeze1 t =
     (if rank t < 1 then Inl TorchError
      else Inr (Nd (map (\<lambda>c. Nd [c]) (children t))))"

definition torch_flatten1 :: "'a tensor \<Rightarrow> error + 'a tensor" where
  \<comment> \<open>\<open>torch.flatten(t, 1)\<close>\<close>
  "torch_flatten1 t =
     (if rank t < 2 then Inl TorchError
      else Inr (Nd (map (\<lambda>c. vec (leaves c)) (children t))))"

fun bc_ok :: "nat list \<Rightarrow> nat list \<Rightarrow> bool" where
  \<comment> \<open>broadcastable sizes, read from the trailing dimension\<close>
  "bc_ok [] _ = True"
| "bc_ok _ [] = True"
| "bc_ok (a # as) (b # bs) = ((a = b \<or> a = 1 \<or> b = 1) \<and> bc_ok as bs)"

function bop :: "('a \<Rightarrow> 'a \<Rightarrow> 'a) \<Rightarrow> 'a tensor \<Rightarrow> 'a tensor \<Rightarrow> 'a tensor" where
  \<comment> \<open>an elementwise binary operation on broadcastable tensors\<close>
  "bop f (Sc a) (Sc b) = Sc (f a b)"
| "bop f (Sc a) (Nd bs) = Nd (map (bop f (Sc a)) bs)"
| "bop f (Nd as) (Sc b) = Nd (map (\<lambda>a. bop f a (Sc b)) as)"
| "bop f (Nd as) (Nd bs) =
     (if rank (Nd as) < rank (Nd bs) then Nd (map (bop f (Nd as)) bs)
      else if rank (Nd bs) < rank (Nd as) then Nd (map (\<lambda>a. bop f a (Nd bs)) as)
      else if length as = length bs
        then Nd (map (\<lambda>i. bop f (as ! i) (bs ! i)) [0..<length as])
      else if length as = 1 then Nd (map (bop f (as ! 0)) bs)
      else if length bs = 1 then Nd (map (\<lambda>a. bop f a (bs ! 0)) as)
      else Nd [])"
  by pat_completeness auto
termination
proof (relation "measure (\<lambda>(f, a, b). size a + size b)", goal_cases)
  have mem: "size t < Suc (size_list size ts)" if "t \<in> set ts" for t :: "'a tensor" and ts
    using that by (induction ts) auto
  have nth: "size (ts ! i) < Suc (size_list size ts)" if "i < length ts"
    for i and ts :: "'a tensor list"
    using that by (intro mem) simp
  {
    case 1
    show ?case by simp
  next
    case (2 f a bs x)
    then show ?case using mem [of x bs] by simp
  next
    case (3 f as b x)
    then show ?case using mem [of x as] by simp
  next
    case (4 f as bs x)
    then show ?case using mem [of x bs] by simp
  next
    case (5 f as bs x)
    then show ?case using mem [of x as] by simp
  next
    case (6 f as bs x)
    then show ?case using nth [of x as] nth [of x bs] by simp
  next
    case (7 f as bs x)
    then show ?case using nth [of 0 as] mem [of x bs] by simp
  next
    case (8 f as bs x)
    then show ?case using nth [of 0 bs] mem [of x as] by simp
  }
qed

definition torch_add :: "real tensor \<Rightarrow> real tensor \<Rightarrow> error + real tensor" where
  \<comment> \<open>\<open>a + b\<close>\<close>
  "torch_add a b =
     (if bc_ok (rev (shape a)) (rev (shape b)) then Inr (bop (+) a b) else Inl TorchError)"

definition torch_sub :: "real tensor \<Rightarrow> real tensor \<Rightarrow> error + real tensor" where
  \<comment> \<open>\<open>a - b\<close>\<close>
  "torch_sub a b =
     (if bc_ok (rev (shape a)) (rev (shape b)) then Inr (bop (-) a b) else Inl TorchError)"

definition torch_scale :: "real \<Rightarrow> real tensor \<Rightarrow> real tensor" where
  \<comment> \<open>\<open>c * t\<close> for a Python number \<open>c\<close>\<close>
  "torch_scale c t = map_tensor (\<lambda>v. c * v) t"

definition torch_pow2 :: "real tensor \<Rightarrow> real tensor" where
  \<comment> \<open>\<open>torch.pow(t, 2)\<close>\<close>
  "torch_pow2 t = map_tensor (\<lambda>v. v ^ 2) t"

definition sum0 :: "real tensor \<Rightarrow> real tensor" where
  \<comment> \<open>the sum over the leading dimension\<close>
  "sum0 t = (case children t of [] \<Rightarrow> Sc 0 | c # cs \<Rightarrow> foldl (bop (+)) c cs)"

definition torch_sum1 :: "bool \<Rightarrow> real tensor \<Rightarrow> error + real tensor" where
  \<comment> \<open>\<open>torch.sum(t, dim=1, keepdim=k)\<close>\<close>
  "torch_sum1 keepdim t =
     (if rank t < 2 then Inl TorchError
      else Inr (Nd (map (\<lambda>c. if keepdim then Nd [sum0 c] else sum0 c) (children t))))"

definition sigmoid :: "real \<Rightarrow> real" where
  "sigmoid v = 1 / (1 + exp (- v))"

definition torch_sigmoid :: "real tensor \<Rightarrow> real tensor" where
  "torch_sigmoid t = map_tensor sigmoid t"

definition torch_relu :: "real tensor \<Rightarrow> real tensor" where
  "torch_relu t = map_tensor (\<lambda>v. max 0 v) t"

section \<open>Layers\<close>

text \<open>
  \<open>nn.Linear\<close> and \<open>nn.Embedding\<close> keep their sizes and their parameters.  The parameters
  are functions of the position, so a layer has a value for every position its sizes
  allow.  Construction draws them at random and training changes them: the
  constructors below take them from an \<open>init_values\<close> argument, and every statement
  about \<open>forward\<close> holds for all parameter values.
\<close>

record linear =
  in_features :: nat
  out_features :: nat
  weight :: "nat \<Rightarrow> nat \<Rightarrow> real"
  bias :: "nat \<Rightarrow> real"

record embedding =
  num_embeddings :: nat
  embedding_dim :: nat
  table :: "nat \<Rightarrow> nat \<Rightarrow> real"

datatype layer = Linear linear | ReLU

datatype anyt = FloatT "real tensor" | LongT "int tensor"

definition nn_Linear ::
  "(nat \<Rightarrow> nat \<Rightarrow> real) \<Rightarrow> (nat \<Rightarrow> real) \<Rightarrow> int \<Rightarrow> int \<Rightarrow> error + linear" where
  \<comment> \<open>\<open>nn.Linear(i, out)\<close>: a negative size is refused\<close>
  "nn_Linear w b i out =
     (if i < 0 \<or> out < 0 then Inl TorchError
      else Inr \<lparr>in_features = nat i, out_features = nat out, weight = w, bias = b\<rparr>)"

definition nn_Embedding :: "(nat \<Rightarrow> nat \<Rightarrow> real) \<Rightarrow> int \<Rightarrow> int \<Rightarrow> error + embedding" where
  \<comment> \<open>\<open>nn.Embedding(n, d)\<close>\<close>
  "nn_Embedding w n d =
     (if n < 0 \<or> d < 0 then Inl TorchError
      else Inr \<lparr>num_embeddings = nat n, embedding_dim = nat d, table = w\<rparr>)"

definition affine :: "linear \<Rightarrow> real list \<Rightarrow> real list" where
  "affine l v =
     map (\<lambda>j. sum_list (map (\<lambda>i. v ! i * weight l j i) [0..<in_features l]) + bias l j)
         [0..<out_features l]"

fun is_sc :: "'a tensor \<Rightarrow> bool" where
  "is_sc (Sc _) = True"
| "is_sc (Nd _) = False"

fun linear_rows :: "linear \<Rightarrow> real tensor \<Rightarrow> real tensor" where
  \<comment> \<open>the affine map along the last dimension\<close>
  "linear_rows l (Sc a) = Sc a"
| "linear_rows l (Nd ts) =
     (if list_all is_sc ts then vec (affine l (leaves (Nd ts)))
      else Nd (map (linear_rows l) ts))"

definition linear_fwd :: "linear \<Rightarrow> real tensor \<Rightarrow> error + real tensor" where
  "linear_fwd l x =
     (if rank x < 1 then Inl TorchError
      else if last (shape x) \<noteq> in_features l then Inl TorchError
      else Inr (linear_rows l x))"

fun emb_rows :: "embedding \<Rightarrow> int tensor \<Rightarrow> real tensor" where
  "emb_rows e (Sc i) = vec (map (table e (nat i)) [0..<embedding_dim e])"
| "emb_rows e (Nd ts) = Nd (map (emb_rows e) ts)"

definition embedding_fwd :: "embedding \<Rightarrow> anyt \<Rightarrow> error + real tensor" where
  \<comment> \<open>the lookup needs an integer tensor with every index in range\<close>
  "embedding_fwd e x =
     (case x of
        FloatT _ \<Rightarrow> Inl TorchError
      | LongT t \<Rightarrow>
          if list_all (\<lambda>i. 0 \<le> i \<and> i < int (num_embeddings e)) (leaves t)
          then Inr (emb_rows e t) else Inl TorchError)"

fun layer_fwd :: "layer \<Rightarrow> real tensor \<Rightarrow> error + real tensor" where
  "layer_fwd (Linear l) x = linear_fwd l x"
| "layer_fwd ReLU x = Inr (torch_relu x)"

fun sequential :: "layer list \<Rightarrow> real tensor \<Rightarrow> error + real tensor" where
  \<comment> \<open>\<open>nn.Sequential\<close>\<close>
  "sequential [] x = Inr x"
| "sequential (l # ls) x = ebind (layer_fwd l x) (sequential ls)"

definition sequential_opt :: "layer list \<Rightarrow> real tensor option \<Rightarrow> error + real tensor option" where
  \<comment> \<open>\<open>nn.Sequential\<close> called on a value that may be \<open>None\<close>: an empty stack returns its
      argument, a layer called on \<open>None\<close> raises\<close>
  "sequential_opt ls x =
     (case x of
        Some t \<Rightarrow> ebind (sequential ls t) (\<lambda>y. Inr (Some y))
      | None \<Rightarrow> if ls = [] then Inr None else Inl TorchError)"

record init_values =
  emb1_init :: "nat \<Rightarrow> nat \<Rightarrow> nat \<Rightarrow> real"
  emb2_init :: "nat \<Rightarrow> nat \<Rightarrow> nat \<Rightarrow> real"
  dense1_init :: "(nat \<Rightarrow> nat \<Rightarrow> real) \<times> (nat \<Rightarrow> real)"
  dense_init :: "(nat \<Rightarrow> nat \<Rightarrow> real) \<times> (nat \<Rightarrow> real)"
  dnn_init :: "nat \<Rightarrow> (nat \<Rightarrow> nat \<Rightarrow> real) \<times> (nat \<Rightarrow> real)"
  out_init :: "(nat \<Rightarrow> nat \<Rightarrow> real) \<times> (nat \<Rightarrow> real)"

fun dnn_stack :: "init_values \<Rightarrow> nat \<Rightarrow> int \<Rightarrow> int list \<Rightarrow> error + layer list" where
  \<comment> \<open>the loop \<open>for units in dnn_units_size\<close>: a \<open>Linear\<close> and a \<open>ReLU\<close> per size; returns
      the layers\<close>
  "dnn_stack r k start [] = Inr []"
| "dnn_stack r k start (units # rest) =
     ebind (nn_Linear (fst (dnn_init r k)) (snd (dnn_init r k)) start units)
       (\<lambda>l. ebind (dnn_stack r (Suc k) units rest) (\<lambda>ls. Inr (Linear l # ReLU # ls)))"

section \<open>DeepFMBase\<close>

datatype dims_arg = DimList "int list" | DimInt int

record deepfm_base =
  input_size :: nat
  dnn_units_size :: "int list"
  continuous_feas_index :: "int list"
  has_cat_feas :: bool
  has_cont_feas :: bool
  cat_feas_nums :: int
  cont_feas_nums :: nat
  fm_1st_order_sparse_emb_layers :: "(nat \<times> embedding) list"
  fm_2nd_order_sparse_emb_layers :: "(nat \<times> embedding) list"
  fm_1st_order_dense_emb_layers :: "linear option"
  dense_layer :: "layer list option"
  dnn_layer :: "layer list"

definition DeepFMBase_init ::
  "init_values \<Rightarrow> dims_arg \<Rightarrow> int list \<Rightarrow> int list option \<Rightarrow> int \<Rightarrow> error + deepfm_base" where
  "DeepFMBase_init r input_dims_arg units continuous_arg fm_embedding_dim =
    (let input_dims = (case input_dims_arg of DimList l \<Rightarrow> l | DimInt d \<Rightarrow> [d]);
         n = length input_dims;
         cont = (case continuous_arg of None \<Rightarrow> [] | Some l \<Rightarrow> l);
         has_cat = (length cont \<noteq> n);
         has_cont = (length cont \<noteq> 0);
         cat_nums = int n - int (length cont);
         second_part_dim = (if has_cat then cat_nums * fm_embedding_dim else fm_embedding_dim);
         slots = (if has_cat
                  then filter (\<lambda>(index, input_dim). int index \<notin> set cont)
                         (zip [0..<n] input_dims)
                  else [])
     in
     ebind (emap (\<lambda>(index, input_dim).
              ebind (nn_Embedding (emb1_init r index) input_dim 1) (\<lambda>e. Inr (index, e))) slots)
       (\<lambda>emb1.
     ebind (emap (\<lambda>(index, input_dim).
              ebind (nn_Embedding (emb2_init r index) input_dim fm_embedding_dim)
                (\<lambda>e. Inr (index, e))) slots)
       (\<lambda>emb2.
     ebind (if has_cont
            then ebind (emap (py_get input_dims) cont) (\<lambda>ds.
                 let continuous_dim = sum_list ds in
                 ebind (nn_Linear (fst (dense1_init r)) (snd (dense1_init r)) continuous_dim 1)
                   (\<lambda>l1.
                 ebind (nn_Linear (fst (dense_init r)) (snd (dense_init r))
                          continuous_dim second_part_dim)
                   (\<lambda>l2. Inr (Some l1, Some [Linear l2, ReLU]))))
            else Inr (None, None))
       (\<lambda>(dense1, dense).
     ebind (dnn_stack r 0 second_part_dim units)
       (\<lambda>dnn_layers.
        Inr \<lparr>input_size = n, dnn_units_size = units, continuous_feas_index = cont,
             has_cat_feas = has_cat, has_cont_feas = has_cont, cat_feas_nums = cat_nums,
             cont_feas_nums = length cont,
             fm_1st_order_sparse_emb_layers = emb1,
             fm_2nd_order_sparse_emb_layers = emb2,
             fm_1st_order_dense_emb_layers = dense1, dense_layer = dense,
             dnn_layer = butlast dnn_layers\<rparr>)))))"

datatype fwd_arg = ArgList "anyt list" | ArgTensor anyt

definition is_long :: "anyt \<Rightarrow> bool" where
  "is_long a = (case a of LongT _ \<Rightarrow> True | FloatT _ \<Rightarrow> False)"

definition to_float :: "anyt \<Rightarrow> real tensor" where
  "to_float a = (case a of FloatT t \<Rightarrow> t | LongT t \<Rightarrow> map_tensor real_of_int t)"

definition attr :: "'a option \<Rightarrow> error + 'a" where
  \<comment> \<open>reading an attribute that construction sets only on one branch\<close>
  "attr a = (case a of None \<Rightarrow> Inl AttributeError | Some v \<Rightarrow> Inr v)"

definition lookups :: "(nat \<times> embedding) list \<Rightarrow> anyt list \<Rightarrow> error + real tensor list" where
  \<comment> \<open>\<open>[layers[idx](x[idx]) for idx in layers]\<close>\<close>
  "lookups layers x =
     emap (\<lambda>(idx, e). ebind (py_get x (int idx)) (embedding_fwd e)) layers"

definition dense_cat_of :: "deepfm_base \<Rightarrow> anyt list \<Rightarrow> error + (bool \<times> real tensor)" where
  \<comment> \<open>\<open>dense_feas\<close> and \<open>dense_cat\<close>; the flag says that every part is an integer tensor,
      which a \<open>Linear\<close> layer refuses\<close>
  "dense_cat_of m x =
     ebind (emap (py_get x) (continuous_feas_index m)) (\<lambda>dense_feas.
     ebind (torch_cat1 (map to_float dense_feas)) (\<lambda>dense_cat.
     Inr (list_all is_long dense_feas, dense_cat)))"

definition on_dense :: "bool \<times> real tensor \<Rightarrow> (real tensor \<Rightarrow> error + real tensor)
    \<Rightarrow> error + real tensor" where
  "on_dense d f = (if fst d then Inl TorchError else f (snd d))"

definition plus_opt :: "real tensor option \<Rightarrow> real tensor \<Rightarrow> error + real tensor option" where
  \<comment> \<open>\<open>a + b if a is not None else b\<close>\<close>
  "plus_opt a b =
     (case a of Some t \<Rightarrow> ebind (torch_add t b) (\<lambda>s. Inr (Some s)) | None \<Rightarrow> Inr (Some b))"

definition fm_2nd_stats ::
  "real tensor list \<Rightarrow> error + (real tensor \<times> real tensor \<times> real tensor)" where
  \<comment> \<open>from \<open>fm_2nd_order_res\<close>: \<open>sum_emb\<close>, \<open>square_and_sum_emb\<close> and the flattened stack\<close>
  "fm_2nd_stats fm_2nd_order_res =
     ebind (torch_stack1 fm_2nd_order_res) (\<lambda>fm_2nd_stack_1d.
     ebind (torch_sum1 False fm_2nd_stack_1d) (\<lambda>sum_emb.
     ebind (torch_sum1 False (torch_pow2 fm_2nd_stack_1d)) (\<lambda>square_and_sum_emb.
     ebind (torch_flatten1 fm_2nd_stack_1d) (\<lambda>dnn_input.
     Inr (sum_emb, square_and_sum_emb, dnn_input)))))"

definition DeepFMBase_forward ::
  "deepfm_base \<Rightarrow> fwd_arg \<Rightarrow> error + real tensor option list" where
  "DeepFMBase_forward m arg =
    (let x = (case arg of ArgList l \<Rightarrow> l | ArgTensor t \<Rightarrow> [t]) in
     if length x \<noteq> input_size m then Inl AssertionError
     else
     ebind (if has_cat_feas m
            then ebind (lookups (fm_1st_order_sparse_emb_layers m) x) (\<lambda>res.
                 ebind (torch_cat1 res) (\<lambda>c.
                 ebind (torch_sum1 True c) (\<lambda>s. Inr (Some s))))
            else Inr None)
       (\<lambda>fm_1st_sparse_res.
     ebind (if has_cont_feas m
            then ebind (dense_cat_of m x) (\<lambda>d. Inr (Some d))
            else Inr None)
       (\<lambda>dense_cat.
     ebind (case dense_cat of
              None \<Rightarrow> Inr fm_1st_sparse_res
            | Some d \<Rightarrow>
                ebind (attr (fm_1st_order_dense_emb_layers m)) (\<lambda>l.
                ebind (on_dense d (linear_fwd l)) (plus_opt fm_1st_sparse_res)))
       (\<lambda>fm_1st_part.
     ebind (if has_cat_feas m
            then ebind (lookups (fm_2nd_order_sparse_emb_layers m) x) (\<lambda>res.
                 ebind (fm_2nd_stats res) (\<lambda>(sum_emb, square_and_sum_emb, dnn_input).
                 Inr (Some sum_emb, Some square_and_sum_emb, Some dnn_input)))
            else Inr (None, None, None))
       (\<lambda>(sum_emb, square_and_sum_emb, dnn_input0).
     ebind (case dense_cat of
              None \<Rightarrow> Inr dnn_input0
            | Some d \<Rightarrow>
                ebind (attr (dense_layer m)) (\<lambda>ls.
                ebind (on_dense d (sequential ls)) (\<lambda>dense_out.
                case dnn_input0 of
                  Some t \<Rightarrow> ebind (torch_add t dense_out) (\<lambda>s. Inr (Some s))
                | None \<Rightarrow> Inr (Some dense_out))))
       (\<lambda>dnn_input.
     ebind (sequential_opt (dnn_layer m) dnn_input)
       (\<lambda>dnn_output.
        if has_cat_feas m
        then Inr [dnn_output, fm_1st_part, sum_emb, square_and_sum_emb]
        else Inr [dnn_output, fm_1st_part, Some (Sc 0), Some (Sc 0)])))))))"

definition output_num :: "deepfm_base \<Rightarrow> nat" where
  "output_num m = 4"

section \<open>DeepFMFuse\<close>

record deepfm_fuse =
  fuse_dnn_units_size :: "int list"
  dnn :: "layer list"

definition DeepFMFuse_init :: "init_values \<Rightarrow> int list \<Rightarrow> int list \<Rightarrow> error + deepfm_fuse" where
  "DeepFMFuse_init r input_dims units =
     ebind (dnn_stack r 0 (sum_list input_dims) units) (\<lambda>dnn_layers.
     ebind (nn_Linear (fst (out_init r)) (snd (out_init r))
              (if units = [] then sum_list input_dims else last units) 1) (\<lambda>out.
     Inr \<lparr>fuse_dnn_units_size = units, dnn = dnn_layers @ [Linear out]\<rparr>))"

definition need :: "'a option \<Rightarrow> error + 'a" where
  \<comment> \<open>a list element handed to the tensor library: \<open>None\<close> is refused\<close>
  "need v = (case v of None \<Rightarrow> Inl TorchError | Some t \<Rightarrow> Inr t)"

definition item :: "real tensor option list \<Rightarrow> int \<Rightarrow> error + real tensor" where
  \<comment> \<open>\<open>x[i]\<close> as the argument of a tensor operation\<close>
  "item x i = ebind (py_get x i) need"

definition fuse_sum_embs :: "real tensor option list \<Rightarrow> error + real tensor" where
  "fuse_sum_embs x =
     ebind (item x 2) (\<lambda>x2.
     if torch_equal x2 (Sc 0) then ebind (item x 6) torch_unsqueeze1
     else ebind (item x 6) (\<lambda>x6.
          if torch_equal x6 (Sc 0) then torch_unsqueeze1 x2
          else ebind (emap need (stride4 (drop 2 x))) torch_stack1))"

definition fuse_square_and_sum_emb :: "real tensor option list \<Rightarrow> error + real tensor" where
  "fuse_square_and_sum_emb x =
     ebind (item x 3) (\<lambda>x3.
     if torch_equal x3 (Sc 0) then item x 7
     else ebind (item x 7) (\<lambda>x7.
          if torch_equal x7 (Sc 0) then Inr x3
          else ebind (ebind (emap need (stride4 (drop 3 x))) torch_stack1)
                 (torch_sum1 False)))"

definition fuse_fm_1st_part :: "real tensor option list \<Rightarrow> error + real tensor" where
  "fuse_fm_1st_part x =
     ebind (ebind (emap need (stride4 (drop 1 x))) torch_stack1) (torch_sum1 False)"

definition fuse_second_order :: "real tensor option list \<Rightarrow> error + real tensor" where
  \<comment> \<open>\<open>0.5 * (sum_and_square_emb - square_and_sum_emb)\<close>\<close>
  "fuse_second_order x =
     ebind (fuse_sum_embs x) (\<lambda>sum_embs.
     ebind (torch_sum1 False sum_embs) (\<lambda>s.
     let sum_and_square_emb = torch_pow2 s in
     ebind (fuse_square_and_sum_emb x) (\<lambda>square_and_sum_emb.
     ebind (torch_sub sum_and_square_emb square_and_sum_emb) (\<lambda>d.
     Inr (torch_scale (1 / 2) d)))))"

definition fuse_outputs :: "deepfm_fuse \<Rightarrow> real tensor option list \<Rightarrow> error + real tensor" where
  \<comment> \<open>the value of \<open>outputs\<close>, before the sigmoid\<close>
  "fuse_outputs m x =
     ebind (ebind (emap need (stride4 x)) torch_cat1) (\<lambda>dnn_outputs.
     ebind (fuse_fm_1st_part x) (\<lambda>fm_1st_part.
     ebind (fuse_second_order x) (\<lambda>second.
     ebind (torch_add second fm_1st_part) (\<lambda>sub.
     ebind (torch_sum1 True sub) (\<lambda>fm_2nd_part.
     ebind (sequential (dnn m) dnn_outputs) (\<lambda>y.
     torch_add fm_2nd_part y))))))"

definition DeepFMFuse_forward ::
  "deepfm_fuse \<Rightarrow> real tensor option list \<Rightarrow> error + real tensor" where
  "DeepFMFuse_forward m x = ebind (fuse_outputs m x) (\<lambda>outputs. Inr (torch_sigmoid outputs))"

section \<open>The wire format between the parties and the aggregator\<close>

definition is_mat :: "nat \<Rightarrow> nat \<Rightarrow> 'a list list \<Rightarrow> bool" where
  \<comment> \<open>a matrix of \<open>B\<close> rows and \<open>D\<close> columns, \<open>B\<close> positive\<close>
  "is_mat B D m = (0 < B \<and> length m = B \<and> list_all (\<lambda>r. length r = D) m)"

definition single_party_second_order :: "real tensor \<Rightarrow> real tensor \<Rightarrow> error + real tensor" where
  \<comment> \<open>\<open>0.5 * (torch.pow(sum_emb, 2) - square_and_sum_emb)\<close> from the statistics of one
      party alone\<close>
  "single_party_second_order sum_emb square_and_sum_emb =
     ebind (torch_sub (torch_pow2 sum_emb) square_and_sum_emb)
       (\<lambda>d. Inr (torch_scale (1 / 2) d))"

definition dot :: "real list \<Rightarrow> real list \<Rightarrow> real" where
  \<comment> \<open>the inner product of two embeddings\<close>
  "dot u v = sum_list (map (\<lambda>(a, b). a * b) (zip u v))"

definition pairwise_interaction :: "real list list \<Rightarrow> real" where
  \<comment> \<open>the interaction of the embeddings \<open>es\<close> of one example, summed over all pairs
      \<open>i < j\<close> of slots\<close>
  "pairwise_interaction es =
     sum_list (concat (map (\<lambda>j. map (\<lambda>i. dot (es ! i) (es ! j)) [0..<j]) [0..<length es]))"

definition mats_sum :: "nat \<Rightarrow> nat \<Rightarrow> real list list list \<Rightarrow> real list list" where
  \<comment> \<open>the elementwise sum of a list of matrices of \<open>B\<close> rows and \<open>D\<close> columns\<close>
  "mats_sum B D ms = map (\<lambda>b. map (\<lambda>d. sum_list (map (\<lambda>m. m ! b ! d) ms)) [0..<D]) [0..<B]"

definition squares :: "real list list \<Rightarrow> real list list" where
  "squares m = map (map (\<lambda>v. v ^ 2)) m"

record party_tuple =
  t_dnn :: "real list list"
  t_fm1 :: "real list"
  t_sum :: "real list list"
  t_sq :: "real list list"

definition wire :: "party_tuple \<Rightarrow> real tensor option list" where
  \<comment> \<open>the four tensors a party sends: the branch output, the first-order sum as a column,
      \<open>sum_emb\<close> and \<open>square_and_sum_emb\<close>\<close>
  "wire p = [Some (mat (t_dnn p)), Some (mat (map (\<lambda>v. [v]) (t_fm1 p))),
             Some (mat (t_sum p)), Some (mat (t_sq p))]"

definition valid_tuple :: "nat \<Rightarrow> nat \<Rightarrow> party_tuple \<Rightarrow> bool" where
  \<comment> \<open>\<open>B\<close> examples, embedding dimension \<open>D\<close>, real statistics\<close>
  "valid_tuple B D p =
     (length (t_dnn p) = B \<and> length (t_fm1 p) = B
      \<and> is_mat B D (t_sum p) \<and> is_mat B D (t_sq p))"

definition dnn_branches :: "nat \<Rightarrow> party_tuple list \<Rightarrow> real list list" where
  \<comment> \<open>the branch outputs of all parties, concatenated example by example\<close>
  "dnn_branches B ps = map (\<lambda>b. concat (map (\<lambda>p. t_dnn p ! b) ps)) [0..<B]"

definition second_order_scalar :: "nat \<Rightarrow> party_tuple list \<Rightarrow> nat \<Rightarrow> real" where
  \<comment> \<open>\<open>0.5 * \<Sum>d. (S\<^sup>2 - Q)\<close> for example \<open>b\<close>, with \<open>S\<close> and \<open>Q\<close> the sums across parties\<close>
  "second_order_scalar D ps b =
     sum_list (map (\<lambda>d. 1 / 2 * ((sum_list (map (\<lambda>p. t_sum p ! b ! d) ps)) ^ 2
                                   - sum_list (map (\<lambda>p. t_sq p ! b ! d) ps))) [0..<D])"

definition first_order_sum :: "party_tuple list \<Rightarrow> nat \<Rightarrow> real" where
  "first_order_sum ps b = sum_list (map (\<lambda>p. t_fm1 p ! b) ps)"

definition claimed_output :: "nat \<Rightarrow> party_tuple list \<Rightarrow> real list \<Rightarrow> nat \<Rightarrow> real" where
  \<comment> \<open>the score before the sigmoid as the specification words it: the first-order sum
      enters once per example\<close>
  "claimed_output D ps ffn b = ffn ! b + second_order_scalar D ps b + first_order_sum ps b"

definition dims_list :: "dims_arg \<Rightarrow> int list" where
  \<comment> \<open>\<open>input_dims\<close> as a list\<close>
  "dims_list a = (case a of DimList l \<Rightarrow> l | DimInt d \<Rightarrow> [d])"

definition cont_list :: "int list option \<Rightarrow> int list" where
  \<comment> \<open>\<open>continuous_feas_index\<close>, \<open>None\<close> read as the empty list\<close>
  "cont_list c = (case c of None \<Rightarrow> [] | Some l \<Rightarrow> l)"

definition valid_config :: "int list \<Rightarrow> int list \<Rightarrow> bool" where
  \<comment> \<open>at least one slot, no negative size, and the continuous indices distinct slot
      positions\<close>
  "valid_config dims cont =
     (dims \<noteq> [] \<and> list_all (\<lambda>w. 0 \<le> w) dims \<and> distinct cont
      \<and> list_all (\<lambda>i. 0 \<le> i \<and> i < int (length dims)) cont)"

definition slot_ok :: "nat \<Rightarrow> bool \<Rightarrow> int \<Rightarrow> anyt \<Rightarrow> bool" where
  \<comment> \<open>the input of one slot for a batch of \<open>B\<close> examples: a float matrix of the slot's
      width for a continuous slot, an integer vector of indices below the slot's
      cardinality for a categorical slot\<close>
  "slot_ok B is_cont w a =
     (case a of
        FloatT t \<Rightarrow> is_cont \<and> t = mat (map leaves (children t))
                     \<and> is_mat B (nat w) (map leaves (children t))
      | LongT t \<Rightarrow> \<not> is_cont \<and> t = vec (leaves t) \<and> length (leaves t) = B
                     \<and> list_all (\<lambda>j. 0 \<le> j \<and> j < w) (leaves t))"

definition well_shaped :: "nat \<Rightarrow> int list \<Rightarrow> int list \<Rightarrow> anyt list \<Rightarrow> bool" where
  "well_shaped B dims cont x =
     (length x = length dims
      \<and> list_all (\<lambda>i. slot_ok B (int i \<in> set cont) (dims ! i) (x ! i)) [0..<length dims])"

section \<open>Example values\<close>

definition ex_init :: init_values where
  "ex_init =
     \<lparr>emb1_init = (\<lambda>slot i j. of_nat (Suc i)),
      emb2_init = (\<lambda>slot i j. of_nat (i + j)),
      dense1_init = (\<lambda>j i. 1, \<lambda>j. 0),
      dense_init = (\<lambda>j i. 1, \<lambda>j. 0),
      dnn_init = (\<lambda>k. (\<lambda>j i. 1, \<lambda>j. 0)),
      out_init = (\<lambda>j i. 1, \<lambda>j. 0)\<rparr>"

definition cont_party :: deepfm_base where
  \<comment> \<open>one continuous slot of width 1, embedding dimension 2, no hidden layer\<close>
  "cont_party = projr (DeepFMBase_init ex_init (DimList [1]) [] (Some [0]) 2)"

definition cat_party :: deepfm_base where
  \<comment> \<open>two categorical slots of cardinality 3, embedding dimension 2, no hidden layer\<close>
  "cat_party = projr (DeepFMBase_init ex_init (DimList [3, 3]) [] None 2)"

definition mixed_party :: deepfm_base where
  \<comment> \<open>a categorical slot of cardinality 3 and a continuous slot of width 1, embedding
      dimension 2, no hidden layer\<close>
  "mixed_party = projr (DeepFMBase_init ex_init (DimList [3, 1]) [] (Some [1]) 2)"

definition deep_party :: deepfm_base where
  \<comment> \<open>a categorical slot of cardinality 3 and a continuous slot of width 1, embedding
      dimension 2, hidden layers of 4 and 3 units\<close>
  "deep_party = projr (DeepFMBase_init ex_init (DimList [3, 1]) [4, 3] (Some [1]) 2)"

definition fuse_party :: "int \<Rightarrow> deepfm_fuse" where
  \<comment> \<open>a fusion network of one output layer over branches of total width \<open>w\<close>\<close>
  "fuse_party w = projr (DeepFMFuse_init ex_init [w] [])"

definition party_one :: party_tuple where
  "party_one = \<lparr>t_dnn = [[1]], t_fm1 = [1], t_sum = [[1, 2]], t_sq = [[1, 2]]\<rparr>"

definition party_two :: party_tuple where
  "party_two = \<lparr>t_dnn = [[2]], t_fm1 = [2], t_sum = [[1, 0]], t_sq = [[1, 0]]\<rparr>"

definition sentinel_tuple :: "real tensor option list" where
  \<comment> \<open>what a party without categorical features sends\<close>
  "sentinel_tuple = [Some (mat [[3, 3]]), Some (mat [[3]]), Some (Sc 0), Some (Sc 0)]"

section \<open>Basic facts\<close>

lemma ebind_simps [simp]:
  "ebind (Inl e) f = Inl e"
  "ebind (Inr v) f = f v"
  by (simp_all add: ebind_def)

lemma ebind_eq_Inr:
  "ebind r f = Inr y \<longleftrightarrow> (\<exists>v. r = Inr v \<and> f v = Inr y)"
  by (cases r) simp_all

lemma ebind_isl: "isl r \<Longrightarrow> isl (ebind r f)"
  by (cases r) simp_all

lemma py_get_short: "int (length xs) \<le> i \<Longrightarrow> py_get xs i = Inl IndexError"
  by (simp add: py_get_def)

lemma item_short: "int (length xs) \<le> i \<Longrightarrow> item xs i = Inl IndexError"
  by (simp add: item_def py_get_short)

lemma torch_equal_sentinel: "torch_equal t (Sc (0::real)) \<longleftrightarrow> t = Sc 0"
proof (cases t)
  case (Sc a)
  then show ?thesis by (simp add: torch_equal_def)
next
  case (Nd ts)
  then show ?thesis by (cases ts) (simp_all add: torch_equal_def)
qed

section \<open>Vectors and matrices as tensors\<close>

lemma shape_vec [simp]: "shape (vec v) = [length v]"
  by (cases v) (simp_all add: vec_def)

lemma rank_vec [simp]: "rank (vec v) = 1"
  by (simp add: rank_def)

lemma children_vec [simp]: "children (vec v) = map Sc v"
  by (simp add: vec_def)

lemma children_mat [simp]: "children (mat m) = map vec m"
  by (simp add: mat_def)

lemma children_cube [simp]: "children (cube c) = map mat c"
  by (simp add: cube_def)

lemma shape_mat: "m \<noteq> [] \<Longrightarrow> shape (mat m) = [length m, length (hd m)]"
  by (cases m) (simp_all add: mat_def)

lemma rank_mat [simp]: "m \<noteq> [] \<Longrightarrow> rank (mat m) = 2"
  by (simp add: rank_def shape_mat)

lemma shape_cube:
  "c \<noteq> [] \<Longrightarrow> hd c \<noteq> [] \<Longrightarrow> shape (cube c) = [length c, length (hd c), length (hd (hd c))]"
  by (cases c) (simp_all add: cube_def shape_mat)

lemma rank_cube [simp]: "c \<noteq> [] \<Longrightarrow> hd c \<noteq> [] \<Longrightarrow> rank (cube c) = 3"
  by (simp add: rank_def shape_cube)

lemma vec_inject [simp]: "vec a = vec b \<longleftrightarrow> a = b"
  by (simp add: vec_def inj_map_eq_map inj_on_def)

lemma mat_inject [simp]: "mat a = mat b \<longleftrightarrow> a = b"
  by (simp add: mat_def inj_map_eq_map inj_on_def)

lemma leaves_vec [simp]: "leaves (vec v) = v"
  by (induction v) (simp_all add: vec_def)

lemma map_tensor_vec [simp]: "map_tensor f (vec v) = vec (map f v)"
  by (simp add: vec_def)

lemma map_tensor_mat [simp]: "map_tensor f (mat m) = mat (map (map f) m)"
  by (simp add: mat_def)

lemma map_tensor_cube [simp]: "map_tensor f (cube c) = cube (map (map (map f)) c)"
  by (simp add: cube_def)

subsection \<open>Elementwise operations\<close>

lemma bop_vec:
  "length a = length b \<Longrightarrow> bop f (vec a) (vec b) = vec (map (\<lambda>i. f (a ! i) (b ! i)) [0..<length a])"
  by (simp add: vec_def rank_def[symmetric]) (simp add: rank_def vec_def[symmetric])

lemma bop_vec_single:
  "bop f (vec a) (vec [v]) = vec (map (\<lambda>x. f x v) a)"
proof (cases "length a = 1")
  case True
  then obtain u where "a = [u]" by (cases a) auto
  then show ?thesis by (simp add: bop_vec)
next
  case False
  have r1: "rank (Nd (map Sc a)) = 1" for a :: "'a list"
    using rank_vec [of a] by (simp add: vec_def)
  have r2: "rank (Nd [Sc v]) = 1"
    using r1 [of "[v]"] by simp
  show ?thesis
    unfolding vec_def using False by (simp add: r1 r2 comp_def)
qed

lemma bop_mat:
  assumes "a \<noteq> []" "length a = length b"
  shows "bop f (mat a) (mat b)
           = Nd (map (\<lambda>i. bop f (vec (a ! i)) (vec (b ! i))) [0..<length a])"
proof -
  have "b \<noteq> []" using assms by auto
  then have "rank (mat a) = rank (mat b)" using assms by simp
  then have "bop f (Nd (map vec a)) (Nd (map vec b))
           = Nd (map (\<lambda>i. bop f (map vec a ! i) (map vec b ! i)) [0..<length a])"
    using assms by (simp add: mat_def)
  then show ?thesis using assms by (simp add: mat_def)
qed

lemma bop_mat_same:
  assumes "a \<noteq> []" "length a = length b"
    and "\<forall>i < length a. length (a ! i) = length (b ! i)"
  shows "bop f (mat a) (mat b)
           = mat (map (\<lambda>i. map (\<lambda>j. f (a ! i ! j) (b ! i ! j)) [0..<length (a ! i)])
                      [0..<length a])"
proof -
  have "map (\<lambda>i. bop f (vec (a ! i)) (vec (b ! i))) [0..<length a]
      = map (\<lambda>i. vec (map (\<lambda>j. f (a ! i ! j) (b ! i ! j)) [0..<length (a ! i)])) [0..<length a]"
    using assms(3) by (intro map_cong refl) (simp add: bop_vec)
  then show ?thesis
    using assms(1,2) by (simp add: bop_mat) (simp add: mat_def comp_def)
qed

lemma bop_mat_column:
  assumes "a \<noteq> []" "length a = length c"
  shows "bop f (mat a) (mat (map (\<lambda>v. [v]) c))
           = mat (map (\<lambda>i. map (\<lambda>x. f x (c ! i)) (a ! i)) [0..<length a])"
proof -
  have "map (\<lambda>i. bop f (vec (a ! i)) (vec (map (\<lambda>v. [v]) c ! i))) [0..<length a]
      = map (\<lambda>i. vec (map (\<lambda>x. f x (c ! i)) (a ! i))) [0..<length a]"
    using assms(2) by (intro map_cong refl) (simp add: bop_vec_single)
  then show ?thesis
    using assms by (simp add: bop_mat) (simp add: mat_def comp_def)
qed

subsection \<open>Sums along a dimension\<close>

lemma foldl_bop_Sc:
  "foldl (bop (+)) (Sc a) (map Sc r) = Sc (a + sum_list r)"
  by (induction r arbitrary: a) (simp_all add: add.assoc)

lemma sum0_vec: "sum0 (vec r) = Sc (sum_list r)"
  by (cases r) (simp_all add: sum0_def foldl_bop_Sc)

lemma foldl_bop_vec:
  assumes "\<forall>r \<in> set rows. length r = length r0"
  shows "foldl (bop (+)) (vec r0) (map vec rows)
           = vec (map (\<lambda>d. r0 ! d + sum_list (map (\<lambda>r. r ! d) rows)) [0..<length r0])"
  using assms
proof (induction rows arbitrary: r0)
  case Nil
  then show ?case by (simp add: map_nth)
next
  case (Cons r rows)
  let ?r1 = "map (\<lambda>i. r0 ! i + r ! i) [0..<length r0]"
  have "foldl (bop (+)) (vec r0) (map vec (r # rows))
          = foldl (bop (+)) (vec ?r1) (map vec rows)"
    using Cons.prems by (simp add: bop_vec)
  also have "\<dots> = vec (map (\<lambda>d. ?r1 ! d + sum_list (map (\<lambda>r. r ! d) rows)) [0..<length ?r1])"
    using Cons.prems by (intro Cons.IH) simp
  also have "\<dots> = vec (map (\<lambda>d. r0 ! d + sum_list (map (\<lambda>r. r ! d) (r # rows))) [0..<length r0])"
    by (simp add: add.assoc)
  finally show ?case .
qed

lemma sum0_mat:
  assumes "rows \<noteq> []" "\<forall>r \<in> set rows. length r = D"
  shows "sum0 (mat rows) = vec (map (\<lambda>d. sum_list (map (\<lambda>r. r ! d) rows)) [0..<D])"
proof -
  obtain r0 rest where rows: "rows = r0 # rest" using assms(1) by (cases rows) auto
  have "sum0 (mat rows) = foldl (bop (+)) (vec r0) (map vec rest)"
    by (simp add: sum0_def rows)
  also have "\<dots> = vec (map (\<lambda>d. r0 ! d + sum_list (map (\<lambda>r. r ! d) rest)) [0..<length r0])"
    using assms(2) by (intro foldl_bop_vec) (simp add: rows)
  finally show ?thesis using assms(2) by (simp add: rows)
qed

lemma torch_sum1_mat:
  assumes "m \<noteq> []"
  shows "torch_sum1 True (mat m) = Inr (mat (map (\<lambda>r. [sum_list r]) m))"
proof -
  have "map (\<lambda>c. Nd [sum0 c]) (map vec m) = map vec (map (\<lambda>r. [sum_list r]) m)"
    by (simp add: sum0_vec) (simp add: vec_def)
  then show ?thesis
    using assms by (simp add: torch_sum1_def) (simp add: mat_def)
qed

lemma torch_sum1_cube:
  assumes "c \<noteq> []" "\<forall>rows \<in> set c. rows \<noteq> [] \<and> (\<forall>r \<in> set rows. length r = D)"
  shows "torch_sum1 False (cube c)
           = Inr (mat (map (\<lambda>rows. map (\<lambda>d. sum_list (map (\<lambda>r. r ! d) rows)) [0..<D]) c))"
proof -
  have "hd c \<noteq> []" using assms by (cases c) auto
  then have "\<not> rank (cube c) < 2" using assms(1) by simp
  moreover have "map (sum0 \<circ> mat) c
     = map (\<lambda>rows. vec (map (\<lambda>d. sum_list (map (\<lambda>r. r ! d) rows)) [0..<D])) c"
    using assms(2) by (intro map_cong refl) (simp add: sum0_mat)
  ultimately show ?thesis
    by (simp add: torch_sum1_def) (simp add: mat_def comp_def)
qed

subsection \<open>Matrices of a given size\<close>

lemma is_mat_nonempty: "is_mat B D m \<Longrightarrow> m \<noteq> []"
  by (auto simp: is_mat_def)

lemma is_mat_row: "is_mat B D m \<Longrightarrow> b < B \<Longrightarrow> length (m ! b) = D"
  by (simp add: is_mat_def list_all_length)

lemma is_mat_shape: "is_mat B D m \<Longrightarrow> shape (mat m) = [B, D]"
  by (cases m) (auto simp: is_mat_def shape_mat)

lemma is_mat_table:
  "is_mat B D m \<Longrightarrow> m = map (\<lambda>b. map (\<lambda>d. m ! b ! d) [0..<D]) [0..<B]"
  by (rule nth_equalityI) (auto simp: is_mat_def list_all_length map_nth)

lemma is_mat_mapI:
  "0 < B \<Longrightarrow> is_mat B D (map (\<lambda>b. map (g b) [0..<D]) [0..<B])"
  by (simp add: is_mat_def list_all_iff)

subsection \<open>Stacking, concatenating, unsqueezing\<close>

lemma torch_stack1_mats:
  assumes "ms \<noteq> []" "\<forall>m \<in> set ms. is_mat B D m"
  shows "torch_stack1 (map mat ms) = Inr (cube (map (\<lambda>b. map (\<lambda>m. m ! b) ms) [0..<B]))"
proof -
  have hd: "is_mat B D (hd ms)" using assms by simp
  have "shape (mat (hd ms)) = [B, D]" "\<forall>m \<in> set ms. shape (mat m) = [B, D]"
    using assms(2) hd by (simp_all add: is_mat_shape)
  then have shapes: "list_all (\<lambda>t. shape t = shape (hd (map mat ms))) (map mat ms)"
    using assms(1) by (simp add: list_all_iff hd_map)
  have rk: "\<not> rank (hd (map mat ms)) < 1"
    using assms(1) hd by (simp add: hd_map is_mat_nonempty)
  have len: "length (children (hd (map mat ms))) = B"
    using assms(1) hd by (simp add: hd_map is_mat_def)
  have "map (\<lambda>i. Nd (map (\<lambda>t. children t ! i) (map mat ms))) [0..<B]
      = map (\<lambda>b. mat (map (\<lambda>m. m ! b) ms)) [0..<B]"
  proof (intro map_cong refl)
    fix b assume "b \<in> set [0..<B]"
    then have "children (mat m) ! b = vec (m ! b)" if "m \<in> set ms" for m
      using assms(2) that by (simp add: is_mat_def)
    then have "map (\<lambda>m. children (mat m) ! b) ms = map (\<lambda>m. vec (m ! b)) ms"
      by (intro map_cong refl)
    then have "map (\<lambda>t. children t ! b) (map mat ms) = map vec (map (\<lambda>m. m ! b) ms)"
      by (simp add: comp_def)
    then show "Nd (map (\<lambda>t. children t ! b) (map mat ms)) = mat (map (\<lambda>m. m ! b) ms)"
      by (simp add: mat_def)
  qed
  then show ?thesis
    using assms(1) shapes rk len by (simp add: torch_stack1_def) (simp add: cube_def comp_def)
qed

lemma torch_cat1_mats:
  assumes "ms \<noteq> []" "\<forall>m \<in> set ms. length m = B \<and> 0 < B"
  shows "torch_cat1 (map mat ms) = Inr (mat (map (\<lambda>b. concat (map (\<lambda>m. m ! b) ms)) [0..<B]))"
proof -
  have ne: "\<forall>m \<in> set ms. m \<noteq> []" using assms(2) by auto
  have hd: "hd ms \<in> set ms" using assms(1) by simp
  have rk: "\<not> list_ex (\<lambda>t. rank t < 2) (map mat ms)"
    using ne by (simp add: list_ex_iff)
  have shapes: "list_all (\<lambda>t. (shape t)[1 := 0] = (shape (hd (map mat ms)))[1 := 0]) (map mat ms)"
    using assms ne hd by (simp add: list_all_iff shape_mat hd_map)
  have len: "length (children (hd (map mat ms))) = B"
    using assms hd by (simp add: hd_map)
  have "map (\<lambda>i. Nd (concat (map (\<lambda>t. children (children t ! i)) (map mat ms)))) [0..<B]
      = map (\<lambda>b. vec (concat (map (\<lambda>m. m ! b) ms))) [0..<B]"
  proof (intro map_cong refl)
    fix b assume "b \<in> set [0..<B]"
    then have "children (children (mat m) ! b) = map Sc (m ! b)" if "m \<in> set ms" for m
      using assms(2) that by simp
    then have "map (\<lambda>m. children (children (mat m) ! b)) ms = map (\<lambda>m. map Sc (m ! b)) ms"
      by (intro map_cong refl)
    then have eq: "map (\<lambda>t. children (children t ! b)) (map mat ms)
        = map (map Sc) (map (\<lambda>m. m ! b) ms)"
      by (simp add: comp_def)
    show "Nd (concat (map (\<lambda>t. children (children t ! b)) (map mat ms)))
        = vec (concat (map (\<lambda>m. m ! b) ms))"
      unfolding eq by (simp add: vec_def map_concat)
  qed
  then show ?thesis
    using assms(1) rk shapes len by (simp add: torch_cat1_def) (simp add: mat_def comp_def)
qed

lemma torch_unsqueeze1_mat:
  "m \<noteq> [] \<Longrightarrow> torch_unsqueeze1 (mat m) = Inr (cube (map (\<lambda>r. [r]) m))"
  by (simp add: torch_unsqueeze1_def) (simp add: cube_def mat_def)

lemma torch_sum1_unsqueezed:
  assumes "is_mat B D m"
  shows "torch_sum1 False (cube (map (\<lambda>r. [r]) m)) = Inr (mat m)"
proof -
  have "torch_sum1 False (cube (map (\<lambda>r. [r]) m))
      = Inr (mat (map (\<lambda>rows. map (\<lambda>d. sum_list (map (\<lambda>r. r ! d) rows)) [0..<D])
                  (map (\<lambda>r. [r]) m)))"
    using assms by (intro torch_sum1_cube) (auto simp: is_mat_def list_all_iff)
  moreover have "map (\<lambda>rows. map (\<lambda>d. sum_list (map (\<lambda>r. r ! d) rows)) [0..<D])
                  (map (\<lambda>r. [r]) m) = m"
    using assms by (auto simp: is_mat_def list_all_iff map_nth intro!: map_idI)
  ultimately show ?thesis by simp
qed

subsection \<open>Arithmetic on matrices\<close>

lemma torch_sub_mats:
  assumes "is_mat B D a" "is_mat B D b"
  shows "torch_sub (mat a) (mat b)
           = Inr (mat (map (\<lambda>i. map (\<lambda>j. a ! i ! j - b ! i ! j) [0..<D]) [0..<B]))"
proof -
  have "bop (-) (mat a) (mat b)
      = mat (map (\<lambda>i. map (\<lambda>j. a ! i ! j - b ! i ! j) [0..<length (a ! i)]) [0..<length a])"
    using assms by (intro bop_mat_same) (auto simp: is_mat_def list_all_length)
  also have "\<dots> = mat (map (\<lambda>i. map (\<lambda>j. a ! i ! j - b ! i ! j) [0..<D]) [0..<B])"
    using assms(1) by (auto simp: is_mat_def list_all_length)
  finally show ?thesis
    using assms by (simp add: torch_sub_def is_mat_shape)
qed

lemma torch_add_column:
  assumes "is_mat B D a" "length c = B"
  shows "torch_add (mat a) (mat (map (\<lambda>v. [v]) c))
           = Inr (mat (map (\<lambda>i. map (\<lambda>j. a ! i ! j + c ! i) [0..<D]) [0..<B]))"
proof -
  have col: "is_mat B 1 (map (\<lambda>v. [v]) c)"
    using assms by (simp add: is_mat_def list_all_iff)
  have "bop (+) (mat a) (mat (map (\<lambda>v. [v]) c))
      = mat (map (\<lambda>i. map (\<lambda>x. x + c ! i) (a ! i)) [0..<length a])"
    using assms by (intro bop_mat_column) (auto simp: is_mat_def)
  also have "\<dots> = mat (map (\<lambda>i. map (\<lambda>j. a ! i ! j + c ! i) [0..<D]) [0..<B])"
  proof -
    have "map (\<lambda>x. x + c ! i) (a ! i) = map (\<lambda>j. a ! i ! j + c ! i) [0..<D]" if "i < B" for i
      using assms(1) that by (intro nth_equalityI) (auto simp: is_mat_def list_all_length)
    then show ?thesis using assms(1) by (simp add: is_mat_def)
  qed
  finally show ?thesis
    using assms(1) col by (simp add: torch_add_def is_mat_shape)
qed

section \<open>The output tuple of a party\<close>

lemma base_forward_length:
  "DeepFMBase_forward m arg = Inr ys \<Longrightarrow> length ys = 4"
  by (auto simp: DeepFMBase_forward_def Let_def ebind_eq_Inr split: if_splits prod.splits)

lemma base_forward_sentinel:
  "DeepFMBase_forward m arg = Inr ys \<Longrightarrow> \<not> has_cat_feas m
     \<Longrightarrow> ys ! 2 = Some (Sc 0) \<and> ys ! 3 = Some (Sc 0)"
  by (auto simp: DeepFMBase_forward_def Let_def ebind_eq_Inr split: if_splits prod.splits)

section \<open>Inputs that are too short for the fusion module\<close>

lemma fuse_sum_embs_four:
  assumes "length x = 4" "x ! 2 = Some t"
  shows "fuse_sum_embs x = Inl IndexError"
proof -
  have "item x 2 = Inr t"
    using assms by (simp add: item_def py_get_def need_def)
  moreover have "item x 6 = Inl IndexError"
    using assms by (simp add: item_short)
  ultimately show ?thesis by (simp add: fuse_sum_embs_def)
qed

lemma fuse_sum_embs_short: "length x < 7 \<Longrightarrow> isl (fuse_sum_embs x)"
  unfolding fuse_sum_embs_def
  by (cases "item x 2") (simp_all add: item_short)

lemma fuse_sq_short: "length x < 8 \<Longrightarrow> isl (fuse_square_and_sum_emb x)"
  unfolding fuse_square_and_sum_emb_def
  by (cases "item x 3") (simp_all add: item_short)

lemma isl_ebind_iff: "isl (ebind r f) \<longleftrightarrow> isl r \<or> (\<exists>v. r = Inr v \<and> isl (f v))"
  by (cases r) simp_all

lemma fuse_second_order_short:
  assumes "length x < 8"
  shows "isl (fuse_second_order x)"
proof (cases "fuse_sum_embs x")
  case (Inl e)
  then show ?thesis by (simp add: fuse_second_order_def)
next
  case (Inr v)
  show ?thesis
  proof (cases "torch_sum1 False v")
    case (Inl e)
    with Inr show ?thesis by (simp add: fuse_second_order_def)
  next
    case s: (Inr s)
    from fuse_sq_short [OF assms] obtain e where "fuse_square_and_sum_emb x = Inl e"
      by (cases "fuse_square_and_sum_emb x") simp_all
    with Inr s show ?thesis by (simp add: fuse_second_order_def)
  qed
qed

lemma fuse_outputs_short:
  assumes "length x < 8"
  shows "isl (fuse_outputs m x)"
proof (cases "ebind (emap need (stride4 x)) torch_cat1")
  case (Inl e)
  then show ?thesis by (simp add: fuse_outputs_def)
next
  case (Inr c)
  show ?thesis
  proof (cases "fuse_fm_1st_part x")
    case (Inl e)
    with Inr show ?thesis by (simp add: fuse_outputs_def)
  next
    case f: (Inr f)
    from fuse_second_order_short [OF assms] obtain e where "fuse_second_order x = Inl e"
      by (cases "fuse_second_order x") simp_all
    with Inr f show ?thesis by (simp add: fuse_outputs_def)
  qed
qed

lemma fuse_forward_short: "length x < 8 \<Longrightarrow> isl (DeepFMFuse_forward m x)"
  using fuse_outputs_short [of x m]
  by (simp add: DeepFMFuse_forward_def ebind_isl)

text \<open>
  C9.  On a list of exactly four elements (the tuple of a single party) \<open>forward\<close> never
  returns a prediction.  When the concatenation of \<open>x[::4]\<close> and the first-order sum
  succeed and \<open>x[2]\<close> is a tensor, the failure is the list subscript \<open>x[6]\<close> of the
  sentinel test, out of range.
\<close>

theorem fuse_single_party_fails:
  assumes "length x = 4"
  shows "isl (DeepFMFuse_forward m x) \<and>
         (ebind (emap need (stride4 x)) torch_cat1 = Inr c \<and> fuse_fm_1st_part x = Inr f
            \<and> x ! 2 = Some t \<longrightarrow> DeepFMFuse_forward m x = Inl IndexError)"
proof (intro conjI impI)
  show "isl (DeepFMFuse_forward m x)"
    using assms by (simp add: fuse_forward_short)
next
  assume h: "ebind (emap need (stride4 x)) torch_cat1 = Inr c \<and> fuse_fm_1st_part x = Inr f
            \<and> x ! 2 = Some t"
  then have "fuse_sum_embs x = Inl IndexError"
    using assms fuse_sum_embs_four by blast
  then have "fuse_second_order x = Inl IndexError"
    by (simp add: fuse_second_order_def)
  with h show "DeepFMFuse_forward m x = Inl IndexError"
    by (simp add: DeepFMFuse_forward_def fuse_outputs_def)
qed

theorem fuse_single_party_fails_witness:
  "length (map Some [mat [[0]], mat [[1]], mat [[1, 2]], mat [[3, 4::real]]]) = 4
   \<and> DeepFMFuse_forward (fuse_party 1)
        (map Some [mat [[0]], mat [[1]], mat [[1, 2]], mat [[3, 4]]]) = Inl IndexError"
proof -
  let ?x = "map Some [mat [[0]], mat [[1]], mat [[1, 2]], mat [[3, 4::real]]]"
  have len: "length ?x = 4" by simp
  have c: "ebind (emap need (stride4 ?x)) torch_cat1 = Inr (mat [[0]])" by code_simp
  have f: "fuse_fm_1st_part ?x = Inr (mat [[1]])" by code_simp
  have t: "?x ! 2 = Some (mat [[1, 2]])" by simp
  from fuse_single_party_fails [OF len, where c = "mat [[0]]" and f = "mat [[1]]"
      and t = "mat [[1, 2]]" and m = "fuse_party 1"] c f t
  show ?thesis by simp
qed

section \<open>The sentinel test\<close>

lemma mat_neq_Sc [simp]: "mat rows \<noteq> Sc v"
  by (simp add: mat_def)

lemma torch_equal_mat: "\<not> torch_equal (mat rows) (Sc (0::real))"
  by (simp add: torch_equal_sentinel)

text \<open>
  C10.  The test \<open>torch.equal(t, torch.tensor(0))\<close> holds exactly for the tensor of
  dimension 0 holding 0.  It is false for every matrix, also one with all entries 0, so
  when \<open>x[2]\<close> and \<open>x[6]\<close> (and \<open>x[3]\<close> and \<open>x[7]\<close>) are matrices the aggregator takes
  the stacking branch, not a substitution branch.
\<close>

theorem sentinel_test_exact:
  "(torch_equal t (Sc 0) \<longleftrightarrow> t = Sc (0::real))
   \<and> \<not> torch_equal (mat rows) (Sc (0::real))
   \<and> (item x 2 = Inr (mat a) \<and> item x 6 = Inr (mat b) \<longrightarrow>
        fuse_sum_embs x = ebind (emap need (stride4 (drop 2 x))) torch_stack1)
   \<and> (item x 3 = Inr (mat a') \<and> item x 7 = Inr (mat b') \<longrightarrow>
        fuse_square_and_sum_emb x
          = ebind (ebind (emap need (stride4 (drop 3 x))) torch_stack1) (torch_sum1 False))"
  by (simp add: torch_equal_sentinel torch_equal_mat fuse_sum_embs_def
      fuse_square_and_sum_emb_def)

theorem sentinel_test_exact_witness:
  "\<not> torch_equal (mat [[0, 0]]) (Sc (0::real))
   \<and> fuse_sum_embs (map Some [mat [[0]], mat [[1]], mat [[0, 0]], mat [[0, 0]],
                              mat [[0]], mat [[1]], mat [[0, 0]], mat [[0, 0]]])
       = Inr (cube [[[0, 0], [0, 0]]])
   \<and> fuse_square_and_sum_emb (map Some [mat [[0]], mat [[1]], mat [[0, 0]], mat [[0, 0]],
                              mat [[0]], mat [[1]], mat [[0, 0]], mat [[0, 0]]])
       = Inr (mat [[0, 0]])"
proof -
  let ?x = "map Some [mat [[0]], mat [[1]], mat [[0, 0]], mat [[0, 0]],
                      mat [[0]], mat [[1]], mat [[0, 0]], mat [[0, 0::real]]]"
  have i2: "item ?x 2 = Inr (mat [[0, 0]])" by code_simp
  have i6: "item ?x 6 = Inr (mat [[0, 0]])" by code_simp
  have i3: "item ?x 3 = Inr (mat [[0, 0]])" by code_simp
  have i7: "item ?x 7 = Inr (mat [[0, 0]])" by code_simp
  have s: "ebind (emap need (stride4 (drop 2 ?x))) torch_stack1 = Inr (cube [[[0, 0], [0, 0]]])"
    by code_simp
  have q: "ebind (ebind (emap need (stride4 (drop 3 ?x))) torch_stack1) (torch_sum1 False)
     = Inr (mat [[0, 0]])"
    by code_simp
  from sentinel_test_exact [where t = "mat [[0, 0]]" and rows = "[[0, 0]]" and x = ?x
      and a = "[[0, 0]]" and b = "[[0, 0]]" and a' = "[[0, 0]]" and b' = "[[0, 0]]"]
    i2 i6 i3 i7 s q
  show ?thesis by simp
qed

section \<open>Length checks of the two forward passes\<close>

lemma base_forward_assert:
  "length x \<noteq> input_size m \<Longrightarrow> DeepFMBase_forward m (ArgList x) = Inl AssertionError"
  by (simp add: DeepFMBase_forward_def)

lemma base_forward_assert_single:
  "input_size m \<noteq> 1 \<Longrightarrow> DeepFMBase_forward m (ArgTensor t) = Inl AssertionError"
  by (auto simp: DeepFMBase_forward_def)

text \<open>
  C6 (as amended).  \<open>DeepFMBase.forward\<close> raises the assertion error whenever the length
  of its input list differs from the configured slot count (a single tensor counts as a
  list of length 1).  \<open>DeepFMFuse.forward\<close> has no length check of its own: it fails
  whenever the flat list has fewer than 8 elements, by the subscripts \<open>x[6]\<close> and
  \<open>x[7]\<close>.
\<close>

theorem forward_length_checks:
  "(length x \<noteq> input_size m \<longrightarrow> DeepFMBase_forward m (ArgList x) = Inl AssertionError)
   \<and> (input_size m \<noteq> 1 \<longrightarrow> DeepFMBase_forward m (ArgTensor t) = Inl AssertionError)
   \<and> (length y < 8 \<longrightarrow> isl (DeepFMFuse_forward f y))"
  by (simp add: base_forward_assert base_forward_assert_single fuse_forward_short)

theorem forward_length_checks_witness:
  "DeepFMBase_forward cat_party (ArgList [LongT (vec [0])]) = Inl AssertionError
   \<and> DeepFMBase_forward cat_party (ArgTensor (LongT (vec [0]))) = Inl AssertionError
   \<and> isl (DeepFMFuse_forward (fuse_party 1)
        (map Some [mat [[0]], mat [[1]], mat [[1, 2]], mat [[3, 4]], mat [[0]]]))"
proof -
  have n: "input_size cat_party = 2" by code_simp
  from forward_length_checks [where x = "[LongT (vec [0])]" and m = cat_party
      and t = "LongT (vec [0])" and f = "fuse_party 1"
      and y = "map Some [mat [[0]], mat [[1]], mat [[1, 2]], mat [[3, 4]], mat [[0]]]"] n
  show ?thesis by simp
qed

text \<open>
  The claim as stated fails: a flat list of 9 elements, not a multiple of 4, given to a
  fusion module configured for one branch, yields a prediction.
\<close>

theorem fuse_forward_nine_counterexample:
  "length (map Some [mat [[0]], mat [[1]], mat [[0, 0]], mat [[0, 0]],
                     mat [[0]], mat [[0]], mat [[0, 0]], mat [[0, 0]], mat [[0::real]]]) = 9
   \<and> DeepFMFuse_init ex_init [3] [] = Inr (fuse_party 3)
   \<and> DeepFMFuse_forward (fuse_party 3)
        (map Some [mat [[0]], mat [[1]], mat [[0, 0]], mat [[0, 0]],
                   mat [[0]], mat [[0]], mat [[0, 0]], mat [[0, 0]], mat [[0]]])
       = Inr (mat [[sigmoid 2]])"
proof -
  have "fuse_outputs (fuse_party 3)
        (map Some [mat [[0]], mat [[1]], mat [[0, 0]], mat [[0, 0]],
                   mat [[0]], mat [[0]], mat [[0, 0]], mat [[0, 0]], mat [[0]]])
       = Inr (mat [[2]])"
    by code_simp
  moreover have "DeepFMFuse_init ex_init [3] [] = Inr (fuse_party 3)"
    by (simp add: fuse_party_def DeepFMFuse_init_def nn_Linear_def)
  ultimately show ?thesis
    by (simp add: DeepFMFuse_forward_def torch_sigmoid_def mat_def vec_def)
qed

section \<open>Construction of a party model\<close>

lemma emap_py_get_out_of_range:
  assumes "i \<in> set is" "i < - int (length xs) \<or> int (length xs) \<le> i"
  shows "emap (py_get xs) is = Inl IndexError"
  using assms
proof (induction "is")
  case Nil
  then show ?case by simp
next
  case (Cons j js)
  show ?case
  proof (cases "py_get xs j")
    case (Inl e)
    then have "e = IndexError" by (auto simp: py_get_def split: if_splits)
    with Inl show ?thesis by simp
  next
    case (Inr v)
    then have "j \<noteq> i" using Cons.prems(2) by (auto simp: py_get_def split: if_splits)
    with Cons have "emap (py_get xs) js = Inl IndexError" by simp
    with Inr show ?thesis by simp
  qed
qed

lemma emap_embedding_ok:
  assumes "\<forall>p \<in> set slots. 0 \<le> snd p" "0 \<le> d"
  shows "\<exists>es. emap (\<lambda>(index, input_dim).
            ebind (nn_Embedding (w index) input_dim d) (\<lambda>e. Inr (index, e))) slots = Inr es"
  using assms by (induction slots) (auto simp: nn_Embedding_def)

lemma dnn_stack_ok:
  assumes "0 \<le> start" "list_all (\<lambda>u. 0 \<le> u) units"
  shows "\<exists>ls. dnn_stack r k start units = Inr ls"
  using assms
proof (induction units arbitrary: k start)
  case Nil
  then show ?case by simp
next
  case (Cons u us)
  then obtain ls where "dnn_stack r (Suc k) u us = Inr ls" by fastforce
  with Cons.prems show ?case by (simp add: nn_Linear_def)
qed

lemma isl_ebindI: "(\<And>v. isl (f v)) \<Longrightarrow> isl (ebind r f)"
  by (cases r) simp_all

lemma init_bad_index:
  assumes "i \<in> set cont" "i < - int (length dims) \<or> int (length dims) \<le> i"
  shows "isl (DeepFMBase_init r (DimList dims) units (Some cont) d)"
proof -
  have ne: "cont \<noteq> []" using assms(1) by auto
  have bad: "emap (py_get dims) cont = Inl IndexError"
    using assms by (rule emap_py_get_out_of_range)
  show ?thesis
    unfolding DeepFMBase_init_def Let_def
    by (rule isl_ebindI, rule isl_ebindI) (simp add: ne bad)
qed

lemma init_bad_index_kind:
  assumes "i \<in> set cont" "i < - int (length dims) \<or> int (length dims) \<le> i"
    and "list_all (\<lambda>n. 0 \<le> n) dims" "0 \<le> d"
  shows "DeepFMBase_init r (DimList dims) units (Some cont) d = Inl IndexError"
proof -
  have ne: "cont \<noteq> []" using assms(1) by auto
  have bad: "emap (py_get dims) cont = Inl IndexError"
    using assms(1,2) by (rule emap_py_get_out_of_range)
  define slots where "slots = (if length cont \<noteq> length dims
                  then filter (\<lambda>(index, input_dim). int index \<notin> set cont)
                         (zip [0..<length dims] dims)
                  else [])"
  have nonneg: "\<forall>p \<in> set slots. 0 \<le> snd p"
    using assms(3) by (auto simp: slots_def list_all_iff dest: set_zip_rightD)
  obtain e1 where e1: "emap (\<lambda>(index, input_dim).
            ebind (nn_Embedding (emb1_init r index) input_dim 1) (\<lambda>e. Inr (index, e))) slots
          = Inr e1"
    using emap_embedding_ok [OF nonneg, of 1 "emb1_init r"] by auto
  obtain e2 where e2: "emap (\<lambda>(index, input_dim).
            ebind (nn_Embedding (emb2_init r index) input_dim d) (\<lambda>e. Inr (index, e))) slots
          = Inr e2"
    using emap_embedding_ok [OF nonneg assms(4), of "emb2_init r"] by auto
  show ?thesis
  proof (cases "length cont = length dims")
    case True
    with ne have "dims \<noteq> []" by auto
    with True e1 e2 show ?thesis
      unfolding DeepFMBase_init_def Let_def by (simp add: ne bad slots_def)
  next
    case False
    with e1 e2 show ?thesis
      unfolding DeepFMBase_init_def Let_def by (simp add: ne bad slots_def)
  qed
qed

lemma init_empty_party:
  assumes "0 \<le> d" "list_all (\<lambda>u. 0 \<le> u) units"
  shows "\<not> isl (DeepFMBase_init r (DimList []) units None d)"
proof -
  obtain ls where "dnn_stack r 0 d units = Inr ls"
    using dnn_stack_ok [OF assms] by blast
  then show ?thesis by (simp add: DeepFMBase_init_def)
qed

text \<open>
  C7 (as amended).  Construction validates nothing itself.  A continuous-index list
  holding an index \<open>i\<close> with \<open>i \<ge> n\<close> or \<open>i < -n\<close>, for \<open>n\<close> slots, makes construction
  raise: the lookup \<open>input_dims[i]\<close> is out of range (an \<open>IndexError\<close>, when no size is
  negative).  A party with zero slots is constructed without error.
\<close>

theorem init_index_out_of_range:
  "(i \<in> set cont \<and> (i < - int (length dims) \<or> int (length dims) \<le> i) \<longrightarrow>
      isl (DeepFMBase_init r (DimList dims) units (Some cont) d)
      \<and> (list_all (\<lambda>n. 0 \<le> n) dims \<and> 0 \<le> d \<longrightarrow>
           DeepFMBase_init r (DimList dims) units (Some cont) d = Inl IndexError))
   \<and> (0 \<le> d' \<and> list_all (\<lambda>u. 0 \<le> u) units' \<longrightarrow>
        \<not> isl (DeepFMBase_init r (DimList []) units' None d'))"
  using init_bad_index [of i cont dims r units d]
    init_bad_index_kind [of i cont dims d r units]
    init_empty_party [of d' units' r]
  by blast

theorem init_index_out_of_range_witness:
  "DeepFMBase_init ex_init (DimList [3, 3]) [8] (Some [5]) 2 = Inl IndexError
   \<and> \<not> isl (DeepFMBase_init ex_init (DimList []) [8] None 4)"
  using init_index_out_of_range [where i = 5 and cont = "[5]" and dims = "[3, 3]"
      and r = ex_init and units = "[8]" and d = 2 and d' = 4 and units' = "[8]"]
  by simp

text \<open>
  The claim as stated fails: a party with zero slots is not rejected at construction.
\<close>

theorem init_empty_party_counterexample:
  "DeepFMBase_init ex_init (DimList []) [] None 4 =
     Inr \<lparr>input_size = 0, dnn_units_size = [], continuous_feas_index = [],
          has_cat_feas = False, has_cont_feas = False, cat_feas_nums = 0,
          cont_feas_nums = 0, fm_1st_order_sparse_emb_layers = [],
          fm_2nd_order_sparse_emb_layers = [],
          fm_1st_order_dense_emb_layers = None, dense_layer = None, dnn_layer = []\<rparr>"
  by (simp add: DeepFMBase_init_def)

section \<open>Two parties, one of them without categorical features\<close>

lemma item_nth: "n < length x \<Longrightarrow> x ! n = Some t \<Longrightarrow> item x (int n) = Inr t"
  by (simp add: item_def py_get_def need_def)

lemma is_mat_pow2: "is_mat B D s \<Longrightarrow> is_mat B D (map (map (\<lambda>v. v ^ 2)) s)"
  by (simp add: is_mat_def list_all_iff)

lemma single_party_second_order_mats:
  assumes "is_mat B D s" "is_mat B D q"
  shows "single_party_second_order (mat s) (mat q)
     = Inr (mat (map (\<lambda>b. map (\<lambda>d. 1 / 2 * ((s ! b ! d) ^ 2 - q ! b ! d)) [0..<D]) [0..<B]))"
proof -
  have "torch_sub (torch_pow2 (mat s)) (mat q)
      = Inr (mat (map (\<lambda>b. map (\<lambda>d. map (map (\<lambda>v. v ^ 2)) s ! b ! d - q ! b ! d) [0..<D])
                 [0..<B]))"
    using assms by (simp add: torch_pow2_def torch_sub_mats is_mat_pow2)
  also have "map (\<lambda>b. map (\<lambda>d. map (map (\<lambda>v. v ^ 2)) s ! b ! d - q ! b ! d) [0..<D]) [0..<B]
      = map (\<lambda>b. map (\<lambda>d. (s ! b ! d) ^ 2 - q ! b ! d) [0..<D]) [0..<B]"
    using assms(1) by (auto simp: is_mat_def list_all_length)
  finally show ?thesis
    by (simp add: single_party_second_order_def torch_scale_def comp_def)
qed

lemma fuse_second_order_substitute:
  assumes "length x = 8" "is_mat B D s" "is_mat B D q"
    and "x ! 2 = Some (mat s) \<and> x ! 3 = Some (mat q) \<and> x ! 6 = Some (Sc 0) \<and> x ! 7 = Some (Sc 0)
       \<or> x ! 6 = Some (mat s) \<and> x ! 7 = Some (mat q) \<and> x ! 2 = Some (Sc 0) \<and> x ! 3 = Some (Sc 0)"
  shows "fuse_second_order x = single_party_second_order (mat s) (mat q)"
proof -
  have ne: "s \<noteq> []" using assms(2) by (rule is_mat_nonempty)
  have sums: "fuse_sum_embs x = Inr (cube (map (\<lambda>r. [r]) s))"
    using assms(1,4) item_nth [of 2 x] item_nth [of 6 x] ne
    by (auto simp: fuse_sum_embs_def torch_equal_sentinel torch_unsqueeze1_mat)
  have sq: "fuse_square_and_sum_emb x = Inr (mat q)"
    using assms(1,4) item_nth [of 3 x] item_nth [of 7 x]
    by (auto simp: fuse_square_and_sum_emb_def torch_equal_sentinel)
  show ?thesis
    using assms(2) by (simp add: fuse_second_order_def sums sq torch_sum1_unsqueezed
        single_party_second_order_def)
qed

text \<open>
  C3.  Party A has categorical features and sends matrices \<open>s\<close> (\<open>sum_emb\<close>) and \<open>q\<close>
  (\<open>square_and_sum_emb\<close>); party B has none and sends the sentinel.  In either party
  order the aggregator's second-order term is what party A's statistics alone give,
  \<open>0.5 * (s\<^sup>2 - q)\<close> entry by entry.
\<close>

theorem fuse_two_party_sentinel:
  assumes "DeepFMBase_forward mA argA = Inr ta" "has_cat_feas mA"
    and "DeepFMBase_forward mB argB = Inr tb" "\<not> has_cat_feas mB"
    and "ta ! 2 = Some (mat s)" "ta ! 3 = Some (mat q)" "is_mat B D s" "is_mat B D q"
  shows "fuse_second_order (ta @ tb) = single_party_second_order (mat s) (mat q)
       \<and> fuse_second_order (tb @ ta) = single_party_second_order (mat s) (mat q)
       \<and> single_party_second_order (mat s) (mat q)
          = Inr (mat (map (\<lambda>b. map (\<lambda>d. 1 / 2 * ((s ! b ! d) ^ 2 - q ! b ! d)) [0..<D])
                          [0..<B]))"
proof -
  have la: "length ta = 4" and lb: "length tb = 4"
    using assms(1,3) by (simp_all add: base_forward_length)
  have sb: "tb ! 2 = Some (Sc 0)" "tb ! 3 = Some (Sc 0)"
    using base_forward_sentinel [OF assms(3,4)] by simp_all
  have "fuse_second_order (ta @ tb) = single_party_second_order (mat s) (mat q)"
    using la lb sb assms(5,6)
    by (intro fuse_second_order_substitute [OF _ assms(7,8)]) (simp_all add: nth_append)
  moreover have "fuse_second_order (tb @ ta) = single_party_second_order (mat s) (mat q)"
    using la lb sb assms(5,6)
    by (intro fuse_second_order_substitute [OF _ assms(7,8)]) (simp_all add: nth_append)
  ultimately show ?thesis
    using single_party_second_order_mats [OF assms(7,8)] by simp
qed

theorem fuse_two_party_sentinel_witness:
  "DeepFMBase_forward cat_party (ArgList [LongT (vec [0]), LongT (vec [1])])
     = Inr [Some (mat [[0, 1, 1, 2]]), Some (mat [[3]]), Some (mat [[1, 3]]), Some (mat [[1, 5]])]
   \<and> DeepFMBase_forward cont_party (ArgList [FloatT (mat [[3]])])
     = Inr [Some (mat [[3, 3]]), Some (mat [[3]]), Some (Sc 0), Some (Sc 0)]
   \<and> fuse_second_order
       ([Some (mat [[0, 1, 1, 2]]), Some (mat [[3]]), Some (mat [[1, 3]]), Some (mat [[1, 5]])]
        @ [Some (mat [[3, 3]]), Some (mat [[3]]), Some (Sc 0), Some (Sc 0)])
     = Inr (mat [[0, 2]])
   \<and> fuse_second_order
       ([Some (mat [[3, 3]]), Some (mat [[3]]), Some (Sc 0), Some (Sc 0)]
        @ [Some (mat [[0, 1, 1, 2]]), Some (mat [[3]]), Some (mat [[1, 3]]), Some (mat [[1, 5]])])
     = Inr (mat [[0, 2]])"
proof -
  let ?ta = "[Some (mat [[0, 1, 1, 2]]), Some (mat [[3]]), Some (mat [[1, 3]]),
              Some (mat [[1, 5::real]])]"
  let ?tb = "[Some (mat [[3, 3]]), Some (mat [[3]]), Some (Sc 0), Some (Sc (0::real))]"
  have a: "DeepFMBase_forward cat_party (ArgList [LongT (vec [0]), LongT (vec [1])]) = Inr ?ta"
    by code_simp
  have ca: "has_cat_feas cat_party" by code_simp
  have b: "DeepFMBase_forward cont_party (ArgList [FloatT (mat [[3]])]) = Inr ?tb"
    by code_simp
  have cb: "\<not> has_cat_feas cont_party" by code_simp
  have s: "is_mat 1 2 [[1, 3::real]]" and q: "is_mat 1 2 [[1, 5::real]]"
    by (simp_all add: is_mat_def)
  from fuse_two_party_sentinel [OF a ca b cb _ _ s q] a b
  show ?thesis by (simp add: numeral_2_eq_2)
qed

section \<open>The pairwise interaction of one party\<close>

lemma dot_nth:
  "length u = D \<Longrightarrow> length v = D \<Longrightarrow> dot u v = sum_list (map (\<lambda>d. u ! d * v ! d) [0..<D])"
proof -
  assume "length u = D" "length v = D"
  then have "map (\<lambda>(a, b). a * b) (zip u v) = map (\<lambda>d. u ! d * v ! d) [0..<D]"
    by (intro nth_equalityI) simp_all
  then show ?thesis by (simp add: dot_def)
qed

lemma sum_list_swap:
  "sum_list (map (\<lambda>d. sum_list (map (\<lambda>i. f i d) is)) ds)
     = sum_list (map (\<lambda>i. sum_list (map (\<lambda>d. (f i d :: real)) ds)) is)"
  by (induction "is") (simp_all add: sum_list_addf)

lemma pairwise_interaction_snoc:
  "pairwise_interaction (vs @ [u])
     = pairwise_interaction vs + sum_list (map (\<lambda>i. dot (vs ! i) u) [0..<length vs])"
proof -
  have "map (\<lambda>j. map (\<lambda>i. dot ((vs @ [u]) ! i) ((vs @ [u]) ! j)) [0..<j]) [0..<length vs]
      = map (\<lambda>j. map (\<lambda>i. dot (vs ! i) (vs ! j)) [0..<j]) [0..<length vs]"
    by (intro map_cong refl) (simp_all add: nth_append)
  moreover have "map (\<lambda>i. dot ((vs @ [u]) ! i) u) [0..<length vs]
      = map (\<lambda>i. dot (vs ! i) u) [0..<length vs]"
    by (intro map_cong refl) (simp add: nth_append)
  ultimately have "concat (map (\<lambda>j. map (\<lambda>i. dot ((vs @ [u]) ! i) ((vs @ [u]) ! j)) [0..<j])
                     [0..<Suc (length vs)])
      = concat (map (\<lambda>j. map (\<lambda>i. dot (vs ! i) (vs ! j)) [0..<j]) [0..<length vs])
        @ map (\<lambda>i. dot (vs ! i) u) [0..<length vs]"
    by (simp only: upt_Suc_append le0 map_append concat_append list.map concat.simps
        append_Nil2 nth_append_length)
  then show ?thesis
    by (simp only: pairwise_interaction_def length_append_singleton sum_list_append)
qed

lemma half_square_step:
  "1 / 2 * ((S + x) ^ 2 - (Q + x ^ 2)) = 1 / 2 * (S ^ 2 - Q) + S * (x :: real)"
  by (simp add: power2_eq_square field_simps)

lemma half_square_identity:
  assumes "\<forall>v \<in> set vs. length v = D"
  shows "sum_list (map (\<lambda>d. 1 / 2 * ((sum_list (map (\<lambda>v. v ! d) vs)) ^ 2
                                      - sum_list (map (\<lambda>v. (v ! d) ^ 2) vs))) [0..<D])
       = pairwise_interaction vs"
  using assms
proof (induction vs rule: rev_induct)
  case Nil
  then show ?case by (simp add: pairwise_interaction_def)
next
  case (snoc u vs)
  let ?S = "\<lambda>d. sum_list (map (\<lambda>v. v ! d) vs)"
  let ?Q = "\<lambda>d. sum_list (map (\<lambda>v. (v ! d) ^ 2) vs)"
  have step: "1 / 2 * ((sum_list (map (\<lambda>v. v ! d) (vs @ [u]))) ^ 2
                        - sum_list (map (\<lambda>v. (v ! d) ^ 2) (vs @ [u])))
      = 1 / 2 * ((?S d) ^ 2 - ?Q d) + ?S d * u ! d" for d
    using half_square_step [of "?S d" "u ! d" "?Q d"] by simp
  have cross: "sum_list (map (\<lambda>d. ?S d * u ! d) [0..<D])
      = sum_list (map (\<lambda>i. dot (vs ! i) u) [0..<length vs])"
  proof -
    have "sum_list (map (\<lambda>d. ?S d * u ! d) [0..<D])
        = sum_list (map (\<lambda>d. sum_list (map (\<lambda>v. v ! d * u ! d) vs)) [0..<D])"
      by (simp add: sum_list_mult_const comp_def)
    also have "\<dots> = sum_list (map (\<lambda>v. sum_list (map (\<lambda>d. v ! d * u ! d) [0..<D])) vs)"
      by (rule sum_list_swap)
    also have "\<dots> = sum_list (map (\<lambda>v. dot v u) vs)"
      using snoc.prems by (intro arg_cong [where f = sum_list] map_cong refl) (simp add: dot_nth)
    also have "\<dots> = sum_list (map (\<lambda>i. dot (vs ! i) u) [0..<length vs])"
    proof -
      have "map (\<lambda>v. dot v u) vs = map (\<lambda>i. dot (vs ! i) u) [0..<length vs]"
        by (intro nth_equalityI) simp_all
      then show ?thesis by simp
    qed
    finally show ?thesis .
  qed
  have "sum_list (map (\<lambda>d. 1 / 2 * ((sum_list (map (\<lambda>v. v ! d) (vs @ [u]))) ^ 2
                                      - sum_list (map (\<lambda>v. (v ! d) ^ 2) (vs @ [u])))) [0..<D])
      = sum_list (map (\<lambda>d. 1 / 2 * ((?S d) ^ 2 - ?Q d) + ?S d * u ! d) [0..<D])"
    by (simp only: step)
  also have "\<dots> = sum_list (map (\<lambda>d. 1 / 2 * ((?S d) ^ 2 - ?Q d)) [0..<D])
                   + sum_list (map (\<lambda>d. ?S d * u ! d) [0..<D])"
    by (rule sum_list_addf)
  also have "\<dots> = pairwise_interaction vs + sum_list (map (\<lambda>i. dot (vs ! i) u) [0..<length vs])"
    using snoc by (simp add: cross)
  finally show ?case by (simp add: pairwise_interaction_snoc)
qed

lemma is_mat_mats_sum: "0 < B \<Longrightarrow> is_mat B D (mats_sum B D ms)"
  by (simp add: mats_sum_def is_mat_mapI)

lemma mats_sum_nth:
  "b < B \<Longrightarrow> d < D \<Longrightarrow> mats_sum B D ms ! b ! d = sum_list (map (\<lambda>m. m ! b ! d) ms)"
  by (simp add: mats_sum_def)

lemma is_mat_squares: "is_mat B D m \<Longrightarrow> is_mat B D (squares m)"
  by (simp add: squares_def is_mat_def list_all_iff)

lemma squares_nth: "is_mat B D m \<Longrightarrow> b < B \<Longrightarrow> d < D \<Longrightarrow> squares m ! b ! d = (m ! b ! d) ^ 2"
  by (simp add: squares_def is_mat_def list_all_length)

lemma stack_sum_mats:
  assumes "ms \<noteq> []" "\<forall>m \<in> set ms. is_mat B D m"
  shows "ebind (torch_stack1 (map mat ms)) (torch_sum1 False) = Inr (mat (mats_sum B D ms))"
proof -
  have B: "0 < B" using assms by (cases ms) (auto simp: is_mat_def)
  let ?c = "map (\<lambda>b. map (\<lambda>m. m ! b) ms) [0..<B]"
  have "torch_sum1 False (cube ?c)
      = Inr (mat (map (\<lambda>rows. map (\<lambda>d. sum_list (map (\<lambda>r. r ! d) rows)) [0..<D]) ?c))"
    using assms B by (intro torch_sum1_cube) (auto simp: is_mat_row)
  then show ?thesis
    using assms by (simp add: torch_stack1_mats mats_sum_def comp_def)
qed

lemma stack_pow_sum_mats:
  assumes "ms \<noteq> []" "\<forall>m \<in> set ms. is_mat B D m"
  shows "ebind (torch_stack1 (map mat ms)) (\<lambda>st. torch_sum1 False (torch_pow2 st))
       = Inr (mat (mats_sum B D (map squares ms)))"
proof -
  have B: "0 < B" using assms by (cases ms) (auto simp: is_mat_def)
  let ?c = "map (\<lambda>b. map (\<lambda>m. map (\<lambda>v. v ^ 2) (m ! b)) ms) [0..<B]"
  have "torch_sum1 False (cube ?c)
      = Inr (mat (map (\<lambda>rows. map (\<lambda>d. sum_list (map (\<lambda>r. r ! d) rows)) [0..<D]) ?c))"
    using assms B by (intro torch_sum1_cube) (auto simp: is_mat_row)
  moreover have "map (\<lambda>rows. map (\<lambda>d. sum_list (map (\<lambda>r. r ! d) rows)) [0..<D]) ?c
      = mats_sum B D (map squares ms)"
    unfolding mats_sum_def using assms(2)
    by (auto simp: comp_def squares_def is_mat_def list_all_length
        intro!: arg_cong [where f = sum_list])
  ultimately show ?thesis
    using assms by (simp add: torch_stack1_mats torch_pow2_def comp_def)
qed

lemma fm_2nd_stats_mats:
  assumes "es \<noteq> []" "\<forall>e \<in> set es. is_mat B D e"
  shows "\<exists>dnn_input. fm_2nd_stats (map mat es)
       = Inr (mat (mats_sum B D es), mat (mats_sum B D (map squares es)), dnn_input)"
proof -
  have B: "0 < B" using assms by (cases es) (auto simp: is_mat_def)
  let ?c = "map (\<lambda>b. map (\<lambda>m. m ! b) es) [0..<B]"
  have st: "torch_stack1 (map mat es) = Inr (cube ?c)"
    using assms by (rule torch_stack1_mats)
  have s1: "torch_sum1 False (cube ?c) = Inr (mat (mats_sum B D es))"
    using stack_sum_mats [OF assms] by (simp add: st)
  have s2: "torch_sum1 False (torch_pow2 (cube ?c)) = Inr (mat (mats_sum B D (map squares es)))"
    using stack_pow_sum_mats [OF assms] by (simp add: st)
  have "\<not> rank (cube ?c) < 2"
    using assms(1) B by (simp add: upt_conv_Cons)
  then have "\<exists>f. torch_flatten1 (cube ?c) = Inr f"
    by (simp add: torch_flatten1_def)
  then show ?thesis
    by (auto simp: fm_2nd_stats_def st s1 s2)
qed

lemma second_order_row_sum:
  assumes "es \<noteq> []" "\<forall>e \<in> set es. is_mat B D e"
  shows "ebind (single_party_second_order (mat (mats_sum B D es))
                  (mat (mats_sum B D (map squares es)))) (torch_sum1 True)
       = Inr (mat (map (\<lambda>b. [pairwise_interaction (map (\<lambda>e. e ! b) es)]) [0..<B]))"
proof -
  have B: "0 < B" using assms by (cases es) (auto simp: is_mat_def)
  let ?S = "mats_sum B D es" and ?Q = "mats_sum B D (map squares es)"
  let ?m = "map (\<lambda>b. map (\<lambda>d. 1 / 2 * ((?S ! b ! d) ^ 2 - ?Q ! b ! d)) [0..<D]) [0..<B]"
  have so: "single_party_second_order (mat ?S) (mat ?Q) = Inr (mat ?m)"
    using B by (intro single_party_second_order_mats is_mat_mats_sum)
  have ne: "?m \<noteq> []" using B by simp
  have row: "sum_list (map (\<lambda>d. 1 / 2 * ((?S ! b ! d) ^ 2 - ?Q ! b ! d)) [0..<D])
      = pairwise_interaction (map (\<lambda>e. e ! b) es)" if "b < B" for b
  proof -
    have eqmap: "map (\<lambda>d. 1 / 2 * ((?S ! b ! d) ^ 2 - ?Q ! b ! d)) [0..<D]
        = map (\<lambda>d. 1 / 2 * ((sum_list (map (\<lambda>v. v ! d) (map (\<lambda>e. e ! b) es))) ^ 2
                     - sum_list (map (\<lambda>v. (v ! d) ^ 2) (map (\<lambda>e. e ! b) es)))) [0..<D]"
    proof (intro map_cong refl)
      fix d assume "d \<in> set [0..<D]"
      then have d: "d < D" by simp
      have sq: "squares e ! b ! d = (e ! b ! d) ^ 2" if "e \<in> set es" for e
        using assms(2) that \<open>b < B\<close> d squares_nth [of B D e b d] by blast
      have "map (\<lambda>e. squares e ! b ! d) es = map (\<lambda>e. (e ! b ! d) ^ 2) es"
        by (intro map_cong refl sq)
      then have eq: "sum_list (map (\<lambda>m. m ! b ! d) (map squares es))
          = sum_list (map (\<lambda>e. (e ! b ! d) ^ 2) es)"
        by (simp only: map_map comp_def)
      have "?S ! b ! d = sum_list (map (\<lambda>e. e ! b ! d) es)"
        "?Q ! b ! d = sum_list (map (\<lambda>e. (e ! b ! d) ^ 2) es)"
        using that d by (simp_all only: mats_sum_nth eq)
      then show "1 / 2 * ((?S ! b ! d) ^ 2 - ?Q ! b ! d)
          = 1 / 2 * ((sum_list (map (\<lambda>v. v ! d) (map (\<lambda>e. e ! b) es))) ^ 2
                     - sum_list (map (\<lambda>v. (v ! d) ^ 2) (map (\<lambda>e. e ! b) es)))"
        by (simp only: map_map comp_def)
    qed
    have lens: "\<forall>v \<in> set (map (\<lambda>e. e ! b) es). length v = D"
      using assms(2) that by (auto simp: is_mat_row)
    show ?thesis
      by (simp only: eqmap half_square_identity [OF lens])
  qed
  have "map (\<lambda>r. [sum_list r]) ?m
      = map (\<lambda>b. [sum_list (map (\<lambda>d. 1 / 2 * ((?S ! b ! d) ^ 2 - ?Q ! b ! d)) [0..<D])])
            [0..<B]"
    by (simp only: map_map comp_def)
  also have "\<dots> = map (\<lambda>b. [pairwise_interaction (map (\<lambda>e. e ! b) es)]) [0..<B]"
  proof (intro map_cong refl)
    fix b assume "b \<in> set [0..<B]"
    then have "b < B" by simp
    from row [OF this]
    show "[sum_list (map (\<lambda>d. 1 / 2 * ((?S ! b ! d) ^ 2 - ?Q ! b ! d)) [0..<D])]
        = [pairwise_interaction (map (\<lambda>e. e ! b) es)]"
      by (simp only:)
  qed
  finally have rows: "map (\<lambda>r. [sum_list r]) ?m
      = map (\<lambda>b. [pairwise_interaction (map (\<lambda>e. e ! b) es)]) [0..<B]" .
  have "ebind (single_party_second_order (mat ?S) (mat ?Q)) (torch_sum1 True)
      = torch_sum1 True (mat ?m)"
    by (simp only: so ebind_simps)
  also have "\<dots> = Inr (mat (map (\<lambda>r. [sum_list r]) ?m))"
    by (rule torch_sum1_mat [OF ne])
  finally show ?thesis by (simp only: rows)
qed

lemma base_forward_stats:
  assumes "DeepFMBase_forward m (ArgList x) = Inr ys" "has_cat_feas m"
    and "lookups (fm_2nd_order_sparse_emb_layers m) x = Inr res"
    and "fm_2nd_stats res = Inr (s, q, f)"
  shows "ys ! 2 = Some s \<and> ys ! 3 = Some q"
  using assms
  by (auto simp: DeepFMBase_forward_def Let_def ebind_eq_Inr split: if_splits)

text \<open>
  C2.  For one party whose categorical slots give the embedding matrices \<open>es\<close> (one
  matrix of \<open>B\<close> examples by \<open>D\<close> per slot, at least one slot), \<open>DeepFMBase.forward\<close>
  computes \<open>sum_emb\<close> as the sum of the embeddings across slots and
  \<open>square_and_sum_emb\<close> as the sum across slots of their elementwise squares, and
  \<open>0.5 * (sum_emb\<^sup>2 - square_and_sum_emb)\<close> summed over the embedding dimension is,
  for every example, the sum of the inner products of all pairs of distinct slots.
  Entries are real numbers: the identity is exact.
\<close>

theorem pairwise_identity:
  assumes "es \<noteq> []" "\<forall>e \<in> set es. is_mat B D e"
  shows "(\<exists>dnn_input. fm_2nd_stats (map mat es)
            = Inr (mat (mats_sum B D es), mat (mats_sum B D (map squares es)), dnn_input))
       \<and> (DeepFMBase_forward m (ArgList x) = Inr ys \<and> has_cat_feas m
            \<and> lookups (fm_2nd_order_sparse_emb_layers m) x = Inr (map mat es)
          \<longrightarrow> ys ! 2 = Some (mat (mats_sum B D es))
              \<and> ys ! 3 = Some (mat (mats_sum B D (map squares es))))
       \<and> ebind (single_party_second_order (mat (mats_sum B D es))
                   (mat (mats_sum B D (map squares es)))) (torch_sum1 True)
          = Inr (mat (map (\<lambda>b. [pairwise_interaction (map (\<lambda>e. e ! b) es)]) [0..<B]))"
proof (intro conjI impI)
  show ex: "\<exists>dnn_input. fm_2nd_stats (map mat es)
            = Inr (mat (mats_sum B D es), mat (mats_sum B D (map squares es)), dnn_input)"
    using assms by (rule fm_2nd_stats_mats)
  {
    assume h: "DeepFMBase_forward m (ArgList x) = Inr ys \<and> has_cat_feas m
            \<and> lookups (fm_2nd_order_sparse_emb_layers m) x = Inr (map mat es)"
    from ex obtain f where "fm_2nd_stats (map mat es)
            = Inr (mat (mats_sum B D es), mat (mats_sum B D (map squares es)), f)" ..
    with h have "ys ! 2 = Some (mat (mats_sum B D es))
         \<and> ys ! 3 = Some (mat (mats_sum B D (map squares es)))"
      by (intro base_forward_stats [of m x ys "map mat es" _ _ f]) simp_all
    then show "ys ! 2 = Some (mat (mats_sum B D es))"
      and "ys ! 3 = Some (mat (mats_sum B D (map squares es)))" by simp_all
  }
  show "ebind (single_party_second_order (mat (mats_sum B D es))
                   (mat (mats_sum B D (map squares es)))) (torch_sum1 True)
          = Inr (mat (map (\<lambda>b. [pairwise_interaction (map (\<lambda>e. e ! b) es)]) [0..<B]))"
    using assms by (rule second_order_row_sum)
qed

theorem pairwise_identity_witness:
  "DeepFMBase_forward cat_party (ArgList [LongT (vec [0]), LongT (vec [1])])
     = Inr [Some (mat [[0, 1, 1, 2]]), Some (mat [[3]]), Some (mat [[1, 3]]), Some (mat [[1, 5]])]
   \<and> lookups (fm_2nd_order_sparse_emb_layers cat_party) [LongT (vec [0]), LongT (vec [1])]
     = Inr (map mat [[[0, 1]], [[1, 2]]])
   \<and> pairwise_interaction [[0, 1], [1, 2]] = 2
   \<and> ebind (single_party_second_order (mat [[1, 3]]) (mat [[1, 5]])) (torch_sum1 True)
     = Inr (mat [[2]])"
proof -
  let ?es = "[[[0, 1]], [[1, 2::real]]]"
  let ?x = "[LongT (vec [0]), LongT (vec [1])]"
  have ne: "?es \<noteq> []" by simp
  have ms: "\<forall>e \<in> set ?es. is_mat 1 2 e" by (simp add: is_mat_def)
  have run: "DeepFMBase_forward cat_party (ArgList ?x)
     = Inr [Some (mat [[0, 1, 1, 2]]), Some (mat [[3]]), Some (mat [[1, 3]]), Some (mat [[1, 5]])]"
    by code_simp
  have cat: "has_cat_feas cat_party" by code_simp
  have lk: "lookups (fm_2nd_order_sparse_emb_layers cat_party) ?x = Inr (map mat ?es)"
    by code_simp
  have S: "mats_sum 1 2 ?es = [[1, 3]]" by code_simp
  have Q: "mats_sum 1 2 (map squares ?es) = [[1, 5]]" by code_simp
  have P: "pairwise_interaction [[0, 1], [1, 2]] = 2" by code_simp
  have "ebind (single_party_second_order (mat (mats_sum 1 2 ?es))
                   (mat (mats_sum 1 2 (map squares ?es)))) (torch_sum1 True)
          = Inr (mat (map (\<lambda>b. [pairwise_interaction (map (\<lambda>e. e ! b) ?es)]) [0..<1]))"
    using pairwise_identity [OF ne ms, where m = cat_party and x = ?x] by blast
  then have "ebind (single_party_second_order (mat [[1, 3]]) (mat [[1, 5]])) (torch_sum1 True)
          = Inr (mat [[2]])"
    unfolding S Q using P by simp
  with run lk P show ?thesis by simp
qed

section \<open>The aggregator on real statistics from every party\<close>

lemma emap_need_Some [simp]: "emap need (map Some ts) = Inr ts"
  by (induction ts) (simp_all add: need_def)

lemma emap_need_Some_comp [simp]: "emap need (map (Some \<circ> f) xs) = Inr (map f xs)"
  using emap_need_Some [of "map f xs"] by (simp only: map_map)

lemma stride4_wire:
  "k < 4 \<Longrightarrow> stride4 (drop k (concat (map wire ps))) = map (\<lambda>p. wire p ! k) ps"
proof (induction ps)
  case Nil
  then show ?case by simp
next
  case (Cons p ps)
  from Cons.prems consider "k = 0" | "k = 1" | "k = 2" | "k = 3" by linarith
  then show ?case
    using Cons.IH by cases (simp_all add: wire_def)
qed

lemma length_concat_wire: "length (concat (map wire ps)) = 4 * length ps"
  by (induction ps) (simp_all add: wire_def)

lemma nth_concat_wire:
  "i < length ps \<Longrightarrow> k < 4 \<Longrightarrow> concat (map wire ps) ! (4 * i + k) = wire (ps ! i) ! k"
proof (induction ps arbitrary: i)
  case Nil
  then show ?case by simp
next
  case (Cons p ps)
  have l: "length (wire p) = 4" by (simp add: wire_def)
  show ?case
  proof (cases i)
    case 0
    then show ?thesis using Cons.prems l by (simp add: nth_append)
  next
    case (Suc j)
    then show ?thesis using Cons l by (simp add: nth_append)
  qed
qed

lemma item_concat_wire:
  assumes "i < length ps" "k < 4" "wire (ps ! i) ! k = Some t"
  shows "item (concat (map wire ps)) (int (4 * i + k)) = Inr t"
proof -
  have "4 * i + k < length (concat (map wire ps))"
    using assms(1,2) by (simp add: length_concat_wire)
  then show ?thesis
    using assms nth_concat_wire [of i ps k] by (intro item_nth) simp_all
qed

lemma stride4_wire_mats:
  "stride4 (drop (Suc 0) (concat (map wire ps))) = map Some (map mat (map (\<lambda>p. map (\<lambda>v. [v]) (t_fm1 p)) ps))"
  "stride4 (drop 2 (concat (map wire ps))) = map Some (map mat (map t_sum ps))"
  "stride4 (drop 3 (concat (map wire ps))) = map Some (map mat (map t_sq ps))"
  "stride4 (concat (map wire ps)) = map Some (map mat (map t_dnn ps))"
  using stride4_wire [of 1 ps] stride4_wire [of 2 ps] stride4_wire [of 3 ps]
    stride4_wire [of 0 ps]
  by (simp_all add: wire_def comp_def)

lemma fuse_stats_all_real:
  assumes "2 \<le> length ps" "\<forall>p \<in> set ps. valid_tuple B D p"
  shows "ebind (fuse_sum_embs (concat (map wire ps))) (torch_sum1 False)
           = Inr (mat (mats_sum B D (map t_sum ps)))"
    and "fuse_square_and_sum_emb (concat (map wire ps))
           = Inr (mat (mats_sum B D (map t_sq ps)))"
proof -
  let ?x = "concat (map wire ps)"
  have ne: "map t_sum ps \<noteq> []" "map t_sq ps \<noteq> []" using assms(1) by auto
  have ms: "\<forall>m \<in> set (map t_sum ps). is_mat B D m" "\<forall>m \<in> set (map t_sq ps). is_mat B D m"
    using assms(2) by (auto simp: valid_tuple_def)
  have nonempty: "ps \<noteq> []" using assms(1) by auto
  have i2: "item ?x 2 = Inr (mat (t_sum (ps ! 0)))"
    using item_concat_wire [of 0 ps 2] assms(1) nonempty by (simp add: wire_def)
  have i6: "item ?x 6 = Inr (mat (t_sum (ps ! 1)))"
    using item_concat_wire [of 1 ps 2] assms(1) nonempty by (simp add: wire_def)
  have i3: "item ?x 3 = Inr (mat (t_sq (ps ! 0)))"
    using item_concat_wire [of 0 ps 3] assms(1) nonempty by (simp add: wire_def)
  have i7: "item ?x 7 = Inr (mat (t_sq (ps ! 1)))"
    using item_concat_wire [of 1 ps 3] assms(1) nonempty by (simp add: wire_def)
  have "fuse_sum_embs ?x = torch_stack1 (map mat (map t_sum ps))"
    by (simp add: fuse_sum_embs_def i2 i6 torch_equal_sentinel stride4_wire_mats)
  then show "ebind (fuse_sum_embs ?x) (torch_sum1 False) = Inr (mat (mats_sum B D (map t_sum ps)))"
    using stack_sum_mats [OF ne(1) ms(1)] by simp
  have "fuse_square_and_sum_emb ?x
      = ebind (torch_stack1 (map mat (map t_sq ps))) (torch_sum1 False)"
    by (simp add: fuse_square_and_sum_emb_def i3 i7 torch_equal_sentinel stride4_wire_mats)
  then show "fuse_square_and_sum_emb ?x = Inr (mat (mats_sum B D (map t_sq ps)))"
    using stack_sum_mats [OF ne(2) ms(2)] by simp
qed

lemma ebind_assoc: "ebind (ebind r f) g = ebind r (\<lambda>v. ebind (f v) g)"
  by (cases r) simp_all

lemma fuse_second_order_all_real:
  assumes "2 \<le> length ps" "\<forall>p \<in> set ps. valid_tuple B D p"
  shows "fuse_second_order (concat (map wire ps))
       = single_party_second_order (mat (mats_sum B D (map t_sum ps)))
           (mat (mats_sum B D (map t_sq ps)))"
proof -
  let ?x = "concat (map wire ps)"
  have "fuse_second_order ?x
      = ebind (ebind (fuse_sum_embs ?x) (torch_sum1 False)) (\<lambda>s.
        ebind (fuse_square_and_sum_emb ?x) (\<lambda>square_and_sum_emb.
        ebind (torch_sub (torch_pow2 s) square_and_sum_emb) (\<lambda>d.
        Inr (torch_scale (1 / 2) d))))"
    by (simp add: fuse_second_order_def ebind_assoc Let_def)
  then show ?thesis
    by (simp add: fuse_stats_all_real [OF assms] single_party_second_order_def)
qed

lemma fuse_fm_1st_part_all_real:
  assumes "ps \<noteq> []" "\<forall>p \<in> set ps. valid_tuple B D p" "0 < B"
  shows "fuse_fm_1st_part (concat (map wire ps))
       = Inr (mat (map (\<lambda>v. [v]) (map (first_order_sum ps) [0..<B])))"
proof -
  let ?cols = "map (\<lambda>p. map (\<lambda>v. [v]) (t_fm1 p)) ps"
  have ne: "?cols \<noteq> []" using assms(1) by simp
  have ms: "\<forall>m \<in> set ?cols. is_mat B 1 m"
    using assms(2,3) by (auto simp: valid_tuple_def is_mat_def list_all_iff)
  have "mats_sum B 1 ?cols = map (\<lambda>v. [v]) (map (first_order_sum ps) [0..<B])"
  proof -
    have "sum_list (map (\<lambda>m. m ! b ! 0) ?cols) = first_order_sum ps b" if "b < B" for b
    proof -
      have "map (\<lambda>p. map (\<lambda>v. [v]) (t_fm1 p) ! b ! 0) ps = map (\<lambda>p. t_fm1 p ! b) ps"
        using assms(2) that by (intro map_cong refl) (simp add: valid_tuple_def)
      then have "sum_list (map (\<lambda>p. map (\<lambda>v. [v]) (t_fm1 p) ! b ! 0) ps)
          = sum_list (map (\<lambda>p. t_fm1 p ! b) ps)"
        by (rule arg_cong)
      then show ?thesis by (simp only: first_order_sum_def map_map comp_def)
    qed
    then show ?thesis by (simp add: mats_sum_def comp_def)
  qed
  then show ?thesis
    using stack_sum_mats [OF ne ms] by (simp add: fuse_fm_1st_part_def stride4_wire_mats)
qed

subsection \<open>The feed-forward stack on a matrix\<close>

lemma linear_rows_vec: "linear_rows l (vec r) = vec (affine l r)"
proof -
  have "list_all is_sc (map Sc r)" by (simp add: list_all_iff)
  moreover have "leaves (Nd (map Sc r)) = r"
    using leaves_vec [of r] by (simp add: vec_def)
  ultimately show ?thesis by (simp add: vec_def)
qed

lemma linear_rows_mat: "a \<noteq> [] \<Longrightarrow> linear_rows l (mat a) = mat (map (affine l) a)"
proof -
  assume "a \<noteq> []"
  then have "\<not> list_all is_sc (map vec a)"
    by (cases a) (simp_all add: vec_def)
  then have "linear_rows l (Nd (map vec a)) = Nd (map (linear_rows l) (map vec a))"
    by simp
  then show ?thesis by (simp add: mat_def linear_rows_vec comp_def)
qed

lemma length_affine [simp]: "length (affine l v) = out_features l"
  by (simp add: affine_def)

lemma linear_fwd_mat:
  assumes "is_mat B (in_features l) a"
  shows "linear_fwd l (mat a) = Inr (mat (map (affine l) a))"
    and "is_mat B (out_features l) (map (affine l) a)"
proof -
  have ne: "a \<noteq> []" using assms by (rule is_mat_nonempty)
  show "linear_fwd l (mat a) = Inr (mat (map (affine l) a))"
    using ne by (simp add: linear_fwd_def is_mat_shape [OF assms] linear_rows_mat)
  show "is_mat B (out_features l) (map (affine l) a)"
    using assms by (simp add: is_mat_def list_all_iff)
qed

lemma relu_mat:
  "torch_relu (mat a) = mat (map (map (max 0)) a)"
  "is_mat B D a \<Longrightarrow> is_mat B D (map (map (max 0)) a)"
  by (simp_all add: torch_relu_def is_mat_def list_all_iff)

lemma sequential_append:
  "sequential (ls @ ls') x = ebind (sequential ls x) (sequential ls')"
proof (induction ls arbitrary: x)
  case Nil
  then show ?case by simp
next
  case (Cons l ls)
  then show ?case by (cases "layer_fwd l x") simp_all
qed

lemma dnn_stack_sequential:
  assumes "dnn_stack r k start units = Inr ls" "is_mat B (nat start) a"
  shows "\<exists>a'. sequential ls (mat a) = Inr (mat a') \<and> is_mat B (nat (last (start # units))) a'"
  using assms
proof (induction units arbitrary: k start ls a)
  case Nil
  then show ?case by auto
next
  case (Cons u us)
  from Cons.prems(1) obtain l rest where
    l: "nn_Linear (fst (dnn_init r k)) (snd (dnn_init r k)) start u = Inr l"
    and rest: "dnn_stack r (Suc k) u us = Inr rest"
    and ls: "ls = Linear l # ReLU # rest"
    by (auto simp: ebind_eq_Inr)
  from l have dims: "in_features l = nat start" "out_features l = nat u"
    by (auto simp: nn_Linear_def split: if_splits)
  let ?a1 = "map (map (max 0)) (map (affine l) a)"
  have lin: "linear_fwd l (mat a) = Inr (mat (map (affine l) a))"
    and m1: "is_mat B (nat u) (map (affine l) a)"
    using linear_fwd_mat [of B l a] Cons.prems(2) dims by simp_all
  have m2: "is_mat B (nat u) ?a1"
    using m1 by (rule relu_mat(2))
  from Cons.IH [OF rest m2] obtain a' where
    "sequential rest (mat ?a1) = Inr (mat a')" "is_mat B (nat (last (u # us))) a'"
    by blast
  then show ?case
    by (auto simp: ls lin relu_mat(1))
qed

lemma fuse_dnn_on_mat:
  assumes "DeepFMFuse_init r input_dims units = Inr m"
    and "is_mat B (nat (sum_list input_dims)) a"
  shows "\<exists>ffn. sequential (dnn m) (mat a) = Inr (mat (map (\<lambda>v. [v]) ffn)) \<and> length ffn = B"
proof -
  let ?start = "if units = [] then sum_list input_dims else last units"
  from assms(1) obtain ls out where
    ls: "dnn_stack r 0 (sum_list input_dims) units = Inr ls"
    and out: "nn_Linear (fst (out_init r)) (snd (out_init r)) ?start 1 = Inr out"
    and m: "dnn m = ls @ [Linear out]"
    by (auto simp: DeepFMFuse_init_def ebind_eq_Inr)
  from out have dims: "in_features out = nat ?start" "out_features out = 1"
    by (auto simp: nn_Linear_def split: if_splits)
  from dnn_stack_sequential [OF ls assms(2)] obtain a' where
    seq: "sequential ls (mat a) = Inr (mat a')"
    and a': "is_mat B (nat (last (sum_list input_dims # units))) a'"
    by blast
  have "last (sum_list input_dims # units) = ?start" by simp
  with a' dims have a'': "is_mat B (in_features out) a'" by simp
  let ?ffn = "map (\<lambda>row. hd (affine out row)) a'"
  have "map (affine out) a' = map (\<lambda>v. [v]) ?ffn"
  proof -
    have "affine out row = [hd (affine out row)]" for row
      using length_affine [of out row] dims(2) by (cases "affine out row") simp_all
    then show ?thesis by (simp add: comp_def)
  qed
  then have "sequential (dnn m) (mat a) = Inr (mat (map (\<lambda>v. [v]) ?ffn))"
    using linear_fwd_mat(1) [OF a''] by (simp add: m sequential_append seq)
  moreover have "length ?ffn = B" using a' by (simp add: is_mat_def)
  ultimately show ?thesis by blast
qed

subsection \<open>The score before the sigmoid\<close>

lemma sum_list_plus_const:
  "sum_list (map (\<lambda>j. f j + (c :: real)) [0..<D]) = sum_list (map f [0..<D]) + real D * c"
  by (simp add: sum_list_addf sum_list_triv)

lemma second_order_rows:
  assumes "\<forall>p \<in> set ps. valid_tuple B D p" "0 < B"
  shows "single_party_second_order (mat (mats_sum B D (map t_sum ps)))
           (mat (mats_sum B D (map t_sq ps)))
       = Inr (mat (map (\<lambda>b. map (\<lambda>d. 1 / 2 * ((sum_list (map (\<lambda>p. t_sum p ! b ! d) ps)) ^ 2
                                   - sum_list (map (\<lambda>p. t_sq p ! b ! d) ps))) [0..<D]) [0..<B]))"
proof -
  let ?S = "mats_sum B D (map t_sum ps)" and ?Q = "mats_sum B D (map t_sq ps)"
  have "map (\<lambda>b. map (\<lambda>d. 1 / 2 * ((?S ! b ! d) ^ 2 - ?Q ! b ! d)) [0..<D]) [0..<B]
      = map (\<lambda>b. map (\<lambda>d. 1 / 2 * ((sum_list (map (\<lambda>p. t_sum p ! b ! d) ps)) ^ 2
                                   - sum_list (map (\<lambda>p. t_sq p ! b ! d) ps))) [0..<D]) [0..<B]"
    by (intro map_cong refl) (simp add: mats_sum_nth comp_def)
  then show ?thesis
    using single_party_second_order_mats [of B D ?S ?Q] assms(2)
    by (simp only: is_mat_mats_sum)
qed

lemma fuse_outputs_all_real:
  assumes "2 \<le> length ps" "\<forall>p \<in> set ps. valid_tuple B D p"
    and "sequential (dnn m) (mat (dnn_branches B ps)) = Inr (mat (map (\<lambda>v. [v]) ffn))"
    and "length ffn = B"
  shows "fuse_outputs m (concat (map wire ps))
       = Inr (mat (map (\<lambda>b. [second_order_scalar D ps b + real D * first_order_sum ps b
                               + ffn ! b]) [0..<B]))"
proof -
  let ?x = "concat (map wire ps)"
  have ne: "ps \<noteq> []" using assms(1) by auto
  then obtain p0 where "p0 \<in> set ps" by (cases ps) auto
  with assms(2) have B: "0 < B" by (auto simp: valid_tuple_def is_mat_def)
  let ?so = "map (\<lambda>b. map (\<lambda>d. 1 / 2 * ((sum_list (map (\<lambda>p. t_sum p ! b ! d) ps)) ^ 2
                                   - sum_list (map (\<lambda>p. t_sq p ! b ! d) ps))) [0..<D]) [0..<B]"
  let ?F = "map (first_order_sum ps) [0..<B]"
  let ?sub = "map (\<lambda>i. map (\<lambda>j. ?so ! i ! j + ?F ! i) [0..<D]) [0..<B]"
  let ?fm2 = "map (\<lambda>r. [sum_list r]) ?sub"
  have cat: "ebind (emap need (stride4 ?x)) torch_cat1 = Inr (mat (dnn_branches B ps))"
  proof -
    have "ebind (emap need (stride4 ?x)) torch_cat1 = torch_cat1 (map mat (map t_dnn ps))"
      by (simp only: stride4_wire_mats emap_need_Some ebind_simps)
    also have "\<dots> = Inr (mat (map (\<lambda>b. concat (map (\<lambda>m. m ! b) (map t_dnn ps))) [0..<B]))"
      using ne assms(2) B by (intro torch_cat1_mats) (auto simp: valid_tuple_def)
    also have "\<dots> = Inr (mat (dnn_branches B ps))"
      by (simp add: dnn_branches_def comp_def)
    finally show ?thesis .
  qed
  have f1: "fuse_fm_1st_part ?x = Inr (mat (map (\<lambda>v. [v]) ?F))"
    using ne assms(2) B by (rule fuse_fm_1st_part_all_real)
  have so: "fuse_second_order ?x = Inr (mat ?so)"
    using fuse_second_order_all_real [OF assms(1,2)] second_order_rows [OF assms(2) B]
    by simp
  have so_mat: "is_mat B D ?so" using B by (rule is_mat_mapI)
  have sub: "torch_add (mat ?so) (mat (map (\<lambda>v. [v]) ?F)) = Inr (mat ?sub)"
    using so_mat by (intro torch_add_column) simp_all
  have sub_ne: "?sub \<noteq> []" using B by simp
  have fm2: "torch_sum1 True (mat ?sub) = Inr (mat ?fm2)"
    using sub_ne by (rule torch_sum1_mat)
  have fm2_mat: "is_mat B 1 ?fm2" using B by (simp add: is_mat_def list_all_iff)
  have out: "torch_add (mat ?fm2) (mat (map (\<lambda>v. [v]) ffn))
      = Inr (mat (map (\<lambda>i. map (\<lambda>j. ?fm2 ! i ! j + ffn ! i) [0..<1]) [0..<B]))"
    using fm2_mat assms(4) by (intro torch_add_column)
  have entries: "map (\<lambda>i. map (\<lambda>j. ?fm2 ! i ! j + ffn ! i) [0..<1]) [0..<B]
      = map (\<lambda>b. [second_order_scalar D ps b + real D * first_order_sum ps b + ffn ! b]) [0..<B]"
  proof (intro map_cong refl)
    fix b assume "b \<in> set [0..<B]"
    then have b: "b < B" by simp
    have "?fm2 ! b ! 0 = sum_list (?sub ! b)" using b by simp
    also have "\<dots> = sum_list (map (\<lambda>j. ?so ! b ! j + first_order_sum ps b) [0..<D])"
      using b by simp
    also have "\<dots> = sum_list (map (\<lambda>j. ?so ! b ! j) [0..<D]) + real D * first_order_sum ps b"
      by (rule sum_list_plus_const)
    also have "sum_list (map (\<lambda>j. ?so ! b ! j) [0..<D]) = second_order_scalar D ps b"
    proof -
      have "map (\<lambda>j. ?so ! b ! j) [0..<D]
          = map (\<lambda>d. 1 / 2 * ((sum_list (map (\<lambda>p. t_sum p ! b ! d) ps)) ^ 2
                                   - sum_list (map (\<lambda>p. t_sq p ! b ! d) ps))) [0..<D]"
        using b by (intro map_cong refl) simp
      then show ?thesis by (simp only: second_order_scalar_def)
    qed
    finally have "?fm2 ! b ! 0
        = second_order_scalar D ps b + real D * first_order_sum ps b" .
    then show "map (\<lambda>j. ?fm2 ! b ! j + ffn ! b) [0..<1]
        = [second_order_scalar D ps b + real D * first_order_sum ps b + ffn ! b]"
      by (simp only: upt_rec [of 0 1] upt_rec [of "Suc 0" 1]) simp
  qed
  show ?thesis
    unfolding fuse_outputs_def
    by (simp only: cat f1 so sub fm2 assms(3) out entries ebind_simps)
qed

text \<open>
  C1 (as amended).  The aggregator is built for branches of total width
  \<open>sum input_dims\<close>; at least two parties each send a branch output, a first-order column
  and two \<open>B\<close> by \<open>D\<close> matrices of real statistics.  Then the fusion network returns one
  value \<open>ffn ! b\<close> per example, and the score before the sigmoid is that value plus
  \<open>0.5 * \<Sum>d. (S\<^sup>2 - Q)\<close> plus \<open>D\<close> times the party-wise sum of first-order scalars:
  the first-order column is broadcast over the \<open>D\<close> columns before the sum over the
  embedding dimension, so it enters once per embedding dimension.
\<close>

theorem fuse_outputs_formula:
  assumes "DeepFMFuse_init r input_dims units = Inr m"
    and "2 \<le> length ps" "\<forall>p \<in> set ps. valid_tuple B D p"
    and "is_mat B (nat (sum_list input_dims)) (dnn_branches B ps)"
  shows "\<exists>ffn. sequential (dnn m) (mat (dnn_branches B ps)) = Inr (mat (map (\<lambda>v. [v]) ffn))
          \<and> length ffn = B
          \<and> fuse_outputs m (concat (map wire ps))
              = Inr (mat (map (\<lambda>b. [second_order_scalar D ps b
                                      + real D * first_order_sum ps b + ffn ! b]) [0..<B]))
          \<and> DeepFMFuse_forward m (concat (map wire ps))
              = Inr (mat (map (\<lambda>b. [sigmoid (second_order_scalar D ps b
                                      + real D * first_order_sum ps b + ffn ! b)]) [0..<B]))"
proof -
  from fuse_dnn_on_mat [OF assms(1,4)] obtain ffn where
    ffn: "sequential (dnn m) (mat (dnn_branches B ps)) = Inr (mat (map (\<lambda>v. [v]) ffn))"
    and len: "length ffn = B"
    by blast
  have out: "fuse_outputs m (concat (map wire ps))
      = Inr (mat (map (\<lambda>b. [second_order_scalar D ps b
                              + real D * first_order_sum ps b + ffn ! b]) [0..<B]))"
    using assms(2,3) ffn len by (rule fuse_outputs_all_real)
  have "DeepFMFuse_forward m (concat (map wire ps))
      = Inr (mat (map (\<lambda>b. [sigmoid (second_order_scalar D ps b
                              + real D * first_order_sum ps b + ffn ! b)]) [0..<B]))"
    by (simp add: DeepFMFuse_forward_def out torch_sigmoid_def comp_def)
  with ffn len out show ?thesis by blast
qed

theorem fuse_outputs_formula_witness:
  "DeepFMFuse_init ex_init [2] [] = Inr (fuse_party 2)
   \<and> valid_tuple 1 2 party_one \<and> valid_tuple 1 2 party_two
   \<and> sequential (dnn (fuse_party 2)) (mat (dnn_branches 1 [party_one, party_two]))
       = Inr (mat [[3]])
   \<and> second_order_scalar 2 [party_one, party_two] 0 = 2
   \<and> first_order_sum [party_one, party_two] 0 = 3
   \<and> fuse_outputs (fuse_party 2) (concat (map wire [party_one, party_two]))
       = Inr (mat [[11]])"
proof -
  let ?ps = "[party_one, party_two]"
  have init: "DeepFMFuse_init ex_init [2] [] = Inr (fuse_party 2)"
    by (simp add: fuse_party_def DeepFMFuse_init_def nn_Linear_def)
  have two: "2 \<le> length ?ps" by simp
  have v1: "valid_tuple 1 2 party_one" and v2: "valid_tuple 1 2 party_two"
    by (simp_all add: valid_tuple_def is_mat_def party_one_def party_two_def)
  then have valid: "\<forall>p \<in> set ?ps. valid_tuple 1 2 p" by simp
  have width: "is_mat 1 (nat (sum_list [2])) (dnn_branches 1 ?ps)"
    by (simp add: is_mat_def dnn_branches_def party_one_def party_two_def)
  have seq: "sequential (dnn (fuse_party 2)) (mat (dnn_branches 1 ?ps)) = Inr (mat [[3]])"
    by code_simp
  have so: "second_order_scalar 2 ?ps 0 = 2" by code_simp
  have fo: "first_order_sum ?ps 0 = 3" by code_simp
  from fuse_outputs_formula [OF init two valid width] obtain ffn where
    "sequential (dnn (fuse_party 2)) (mat (dnn_branches 1 ?ps)) = Inr (mat (map (\<lambda>v. [v]) ffn))"
    "length ffn = 1"
    "fuse_outputs (fuse_party 2) (concat (map wire ?ps))
       = Inr (mat (map (\<lambda>b. [second_order_scalar 2 ?ps b
                                      + real 2 * first_order_sum ?ps b + ffn ! b]) [0..<1]))"
    by blast
  moreover from this(1,2) seq have "ffn = [3]"
    by (cases ffn) simp_all
  ultimately have "fuse_outputs (fuse_party 2) (concat (map wire ?ps)) = Inr (mat [[11]])"
    by (simp add: so fo)
  with init v1 v2 seq so fo show ?thesis by simp
qed

text \<open>
  The claim as stated fails: with embedding dimension 2 and first-order scalars 1 and 2
  the score before the sigmoid is 11, while a first-order sum added once gives 8.
\<close>

theorem first_order_once_counterexample:
  "fuse_outputs (fuse_party 2) (concat (map wire [party_one, party_two])) = Inr (mat [[11]])
   \<and> sequential (dnn (fuse_party 2)) (mat (dnn_branches 1 [party_one, party_two]))
       = Inr (mat (map (\<lambda>v. [v]) [3]))
   \<and> claimed_output 2 [party_one, party_two] [3] 0 = 8"
  by code_simp

section \<open>Three parties, one of them without categorical features\<close>

text \<open>
  C4.  The sentinel test reads only \<open>x[2]\<close>, \<open>x[6]\<close> (and \<open>x[3]\<close>, \<open>x[7]\<close>), whatever
  the number of parties.  With three parties, the first sending the sentinel and the
  other two sending real statistics, the second-order term is built from the second
  party alone: the third party's statistics are dropped.  With the sentinel party in
  third position the stacking of tensors of different sizes fails.  The claimed value
  \<open>0.5 * ((s\<^sub>1 + s\<^sub>2)\<^sup>2 - (q\<^sub>1 + q\<^sub>2))\<close> is different.
\<close>

theorem fuse_three_party_sentinel:
  "fuse_second_order (sentinel_tuple @ wire party_one @ wire party_two) = Inr (mat [[0, 1]])
   \<and> fuse_second_order (wire party_one @ wire party_two @ sentinel_tuple) = Inl TorchError
   \<and> single_party_second_order
        (mat (mats_sum 1 2 [t_sum party_one, t_sum party_two]))
        (mat (mats_sum 1 2 [t_sq party_one, t_sq party_two])) = Inr (mat [[1, 1]])"
  by code_simp

section \<open>The forward pass of a party returns\<close>

lemma emap_all_Inr:
  "(\<And>x. x \<in> set xs \<Longrightarrow> f x = Inr (g x)) \<Longrightarrow> emap f xs = Inr (map g xs)"
  by (induction xs) simp_all

lemma emap_Inr_length: "emap f xs = Inr ys \<Longrightarrow> length ys = length xs"
  by (induction xs arbitrary: ys) (auto simp: ebind_eq_Inr)

lemma emap_Inr_nth:
  "emap f xs = Inr ys \<Longrightarrow> i < length xs \<Longrightarrow> f (xs ! i) = Inr (ys ! i)"
proof (induction xs arbitrary: ys i)
  case Nil
  then show ?case by simp
next
  case (Cons x xs)
  then show ?case by (cases i) (auto simp: ebind_eq_Inr)
qed

lemma emb_rows_vec:
  "emb_rows e (vec idxs) = mat (map (\<lambda>j. map (table e (nat j)) [0..<embedding_dim e]) idxs)"
  by (simp add: vec_def mat_def comp_def)

lemma embedding_fwd_vec:
  assumes "list_all (\<lambda>j. 0 \<le> j \<and> j < int (num_embeddings e)) idxs"
  shows "embedding_fwd e (LongT (vec idxs))
       = Inr (mat (map (\<lambda>j. map (table e (nat j)) [0..<embedding_dim e]) idxs))"
  using assms by (simp add: embedding_fwd_def emb_rows_vec)

lemma slot_ok_cat:
  assumes "slot_ok B False w a"
  obtains idxs where "a = LongT (vec idxs)" "length idxs = B"
    "list_all (\<lambda>j. 0 \<le> j \<and> j < w) idxs"
  using assms by (auto simp: slot_ok_def split: anyt.splits)

lemma slot_ok_cont:
  assumes "slot_ok B True w a"
  obtains rows where "a = FloatT (mat rows)" "is_mat B (nat w) rows"
  using assms by (auto simp: slot_ok_def split: anyt.splits)

lemma init_model:
  assumes "DeepFMBase_init r a units c d = Inr m"
  defines "dims \<equiv> dims_list a" and "cont \<equiv> cont_list c"
  defines "spd \<equiv> (if length cont \<noteq> length dims
                   then (int (length dims) - int (length cont)) * d else d)"
  defines "slots \<equiv> (if length cont \<noteq> length dims
                     then filter (\<lambda>(index, input_dim). int index \<notin> set cont)
                            (zip [0..<length dims] dims)
                     else [])"
  shows "input_size m = length dims"
    and "has_cat_feas m = (length cont \<noteq> length dims)"
    and "has_cont_feas m = (cont \<noteq> [])"
    and "continuous_feas_index m = cont"
    and "emap (\<lambda>(index, input_dim).
              ebind (nn_Embedding (emb1_init r index) input_dim 1) (\<lambda>e. Inr (index, e))) slots
           = Inr (fm_1st_order_sparse_emb_layers m)"
    and "emap (\<lambda>(index, input_dim).
              ebind (nn_Embedding (emb2_init r index) input_dim d) (\<lambda>e. Inr (index, e))) slots
           = Inr (fm_2nd_order_sparse_emb_layers m)"
    and "cont \<noteq> [] \<Longrightarrow> \<exists>ds l1 l2. emap (py_get dims) cont = Inr ds
           \<and> nn_Linear (fst (dense1_init r)) (snd (dense1_init r)) (sum_list ds) 1 = Inr l1
           \<and> nn_Linear (fst (dense_init r)) (snd (dense_init r)) (sum_list ds) spd = Inr l2
           \<and> fm_1st_order_dense_emb_layers m = Some l1
           \<and> dense_layer m = Some [Linear l2, ReLU]"
    and "\<exists>ls. dnn_stack r 0 spd units = Inr ls \<and> dnn_layer m = butlast ls"
  using assms(1)
  unfolding DeepFMBase_init_def Let_def dims_def cont_def spd_def slots_def
    dims_list_def cont_list_def
  by (auto simp: ebind_eq_Inr split: if_splits)

lemma emb_layers_built:
  assumes "emap (\<lambda>(index, input_dim).
              ebind (nn_Embedding (w index) input_dim K) (\<lambda>e. Inr (index, e))) slots = Inr es"
  shows "es = map (\<lambda>(i, n). (i, \<lparr>num_embeddings = nat n, embedding_dim = nat K,
                                   table = w i\<rparr>)) slots"
  using assms
proof (induction slots arbitrary: es)
  case Nil
  then show ?case by simp
next
  case (Cons s slots)
  obtain i n where s: "s = (i, n)" by (cases s)
  from Cons.prems obtain e rest where
    e: "nn_Embedding (w i) n K = Inr e"
    and rest: "emap (\<lambda>(index, input_dim).
              ebind (nn_Embedding (w index) input_dim K) (\<lambda>e. Inr (index, e))) slots = Inr rest"
    and es: "es = (i, e) # rest"
    by (auto simp: s ebind_eq_Inr)
  from e have "e = \<lparr>num_embeddings = nat n, embedding_dim = nat K, table = w i\<rparr>"
    by (auto simp: nn_Embedding_def split: if_splits)
  with Cons.IH [OF rest] es s show ?case by simp
qed

lemma py_get_nat: "i < length xs \<Longrightarrow> py_get xs (int i) = Inr (xs ! i)"
  by (simp add: py_get_def)

lemma lookups_well_shaped:
  assumes "es = map (\<lambda>(i, n). (i, \<lparr>num_embeddings = nat n, embedding_dim = K,
                                   table = w i\<rparr>)) slots"
    and "\<And>i n. (i, n) \<in> set slots \<Longrightarrow> i < length x \<and> slot_ok B False n (x ! i)"
    and "0 < B"
  shows "\<exists>ms. lookups es x = Inr (map mat ms) \<and> length ms = length slots
            \<and> (\<forall>m \<in> set ms. is_mat B K m)"
proof -
  define rows where "rows = (\<lambda>i. map (\<lambda>j. map (w i (nat j)) [0..<K])
                      (case x ! i of LongT t \<Rightarrow> leaves t | FloatT _ \<Rightarrow> []))"
  have one: "(case p of (idx, e) \<Rightarrow> ebind (py_get x (int idx)) (embedding_fwd e))
        = Inr (mat (rows (fst p)))
      \<and> is_mat B K (rows (fst p))" if "p \<in> set es" for p
  proof -
    from that assms(1) obtain i n where p: "p = (i, \<lparr>num_embeddings = nat n, embedding_dim = K,
                                   table = w i\<rparr>)" and mem: "(i, n) \<in> set slots"
      by auto
    from assms(2) [OF mem] have i: "i < length x" and ok: "slot_ok B False n (x ! i)"
      by simp_all
    from ok obtain idxs where x: "x ! i = LongT (vec idxs)" and len: "length idxs = B"
      and rng: "list_all (\<lambda>j. 0 \<le> j \<and> j < n) idxs"
      by (rule slot_ok_cat)
    have rng': "list_all (\<lambda>j. 0 \<le> j \<and> j < int (nat n)) idxs"
      using rng by (auto simp: list_all_iff)
    have "ebind (py_get x (int i)) (embedding_fwd (snd p))
        = Inr (mat (map (\<lambda>j. map (w i (nat j)) [0..<K]) idxs))"
      using rng' i x
      by (simp add: p py_get_nat embedding_fwd_def emb_rows_vec)
    moreover have "rows i = map (\<lambda>j. map (w i (nat j)) [0..<K]) idxs"
      by (simp add: rows_def x)
    moreover have "is_mat B K (map (\<lambda>j. map (w i (nat j)) [0..<K]) idxs)"
      using len assms(3) by (simp add: is_mat_def list_all_iff)
    ultimately show ?thesis by (simp add: p)
  qed
  let ?g = "\<lambda>p. mat (rows (fst p))"
  have "lookups es x = Inr (map ?g es)"
    unfolding lookups_def using one by (intro emap_all_Inr) blast
  then have "lookups es x = Inr (map mat (map (\<lambda>p. rows (fst p)) es))"
    by (simp add: comp_def)
  moreover have "length (map (\<lambda>p. rows (fst p)) es) = length slots"
    by (simp add: assms(1))
  moreover have "\<forall>m \<in> set (map (\<lambda>p. rows (fst p)) es). is_mat B K m"
    using one by auto
  ultimately show ?thesis by blast
qed

lemma cat_sum_columns:
  assumes "ms \<noteq> []" "\<forall>m \<in> set ms. is_mat B K m"
  shows "\<exists>c. ebind (torch_cat1 (map mat ms)) (torch_sum1 True) = Inr (mat c) \<and> is_mat B 1 c"
proof -
  have B: "0 < B" using assms by (cases ms) (auto simp: is_mat_def)
  let ?rows = "map (\<lambda>b. concat (map (\<lambda>m. m ! b) ms)) [0..<B]"
  have cat: "torch_cat1 (map mat ms) = Inr (mat ?rows)"
    using assms by (intro torch_cat1_mats) (auto simp: is_mat_def)
  have ne: "?rows \<noteq> []" using B by simp
  have "torch_sum1 True (mat ?rows) = Inr (mat (map (\<lambda>r. [sum_list r]) ?rows))"
    using ne by (rule torch_sum1_mat)
  moreover have "is_mat B 1 (map (\<lambda>r. [sum_list r]) ?rows)"
    using B by (simp add: is_mat_def list_all_iff)
  ultimately show ?thesis by (auto simp: cat)
qed

lemma torch_add_mats:
  assumes "is_mat B D a" "is_mat B D b"
  shows "\<exists>c. torch_add (mat a) (mat b) = Inr (mat c) \<and> is_mat B D c"
proof -
  have B: "0 < B" using assms(1) by (simp add: is_mat_def)
  have "bop (+) (mat a) (mat b)
      = mat (map (\<lambda>i. map (\<lambda>j. a ! i ! j + b ! i ! j) [0..<length (a ! i)]) [0..<length a])"
    using assms by (intro bop_mat_same) (auto simp: is_mat_def list_all_length)
  also have "\<dots> = mat (map (\<lambda>i. map (\<lambda>j. a ! i ! j + b ! i ! j) [0..<D]) [0..<B])"
    using assms(1) by (auto simp: is_mat_def list_all_length)
  finally have "torch_add (mat a) (mat b)
      = Inr (mat (map (\<lambda>i. map (\<lambda>j. a ! i ! j + b ! i ! j) [0..<D]) [0..<B]))"
    using assms by (simp add: torch_add_def is_mat_shape)
  moreover have "is_mat B D (map (\<lambda>i. map (\<lambda>j. a ! i ! j + b ! i ! j) [0..<D]) [0..<B])"
    using B by (rule is_mat_mapI)
  ultimately show ?thesis by blast
qed

lemma leaves_mat [simp]: "leaves (mat rows) = concat rows"
  by (simp add: mat_def comp_def)

lemma torch_flatten1_cube:
  assumes "c \<noteq> []" "hd c \<noteq> []"
  shows "torch_flatten1 (cube c) = Inr (mat (map concat c))"
  using assms by (simp add: torch_flatten1_def) (simp add: mat_def comp_def)

lemma fm_2nd_stats_flat:
  assumes "es \<noteq> []" "\<forall>e \<in> set es. is_mat B K e"
  shows "\<exists>flat. fm_2nd_stats (map mat es)
       = Inr (mat (mats_sum B K es), mat (mats_sum B K (map squares es)), mat flat)
       \<and> is_mat B (length es * K) flat"
proof -
  have B: "0 < B" using assms by (cases es) (auto simp: is_mat_def)
  let ?c = "map (\<lambda>b. map (\<lambda>m. m ! b) es) [0..<B]"
  have st: "torch_stack1 (map mat es) = Inr (cube ?c)"
    using assms by (rule torch_stack1_mats)
  have s1: "torch_sum1 False (cube ?c) = Inr (mat (mats_sum B K es))"
    using stack_sum_mats [OF assms] by (simp add: st)
  have s2: "torch_sum1 False (torch_pow2 (cube ?c)) = Inr (mat (mats_sum B K (map squares es)))"
    using stack_pow_sum_mats [OF assms] by (simp add: st)
  have fl: "torch_flatten1 (cube ?c) = Inr (mat (map concat ?c))"
    using assms(1) B by (intro torch_flatten1_cube) (simp_all add: upt_conv_Cons)
  have "length (concat (map (\<lambda>m. m ! b) es)) = length es * K" if "b < B" for b
  proof -
    have "map (\<lambda>m. length (m ! b)) es = map (\<lambda>m. K) es"
      using assms(2) that by (intro map_cong refl) (auto simp: is_mat_row)
    then have "sum_list (map (\<lambda>m. length (m ! b)) es) = sum_list (map (\<lambda>m. K) es)"
      by (rule arg_cong)
    also have "\<dots> = length es * K" by (simp add: sum_list_triv)
    finally show ?thesis by (simp only: length_concat map_map comp_def)
  qed
  then have "is_mat B (length es * K) (map concat ?c)"
    using B by (simp add: is_mat_def list_all_iff)
  then show ?thesis
    by (auto simp: fm_2nd_stats_def st s1 s2 fl)
qed

lemma sequential_butlast:
  assumes "sequential ls x = Inr y"
  shows "\<exists>z. sequential (butlast ls) x = Inr z"
proof (cases "ls = []")
  case True
  then show ?thesis by simp
next
  case False
  then have "ls = butlast ls @ [last ls]" by simp
  then have "sequential ls x = ebind (sequential (butlast ls) x) (sequential [last ls])"
    using sequential_append [of "butlast ls" "[last ls]" x] by simp
  with assms show ?thesis by (auto simp: ebind_eq_Inr)
qed

lemma sum_list_nat:
  "\<forall>w \<in> set ws. 0 \<le> w \<Longrightarrow> sum_list (map nat ws) = nat (sum_list ws)"
proof (induction ws)
  case Nil
  then show ?case by simp
next
  case (Cons w ws)
  then have "0 \<le> sum_list ws" by (simp add: sum_list_nonneg)
  with Cons show ?case by (simp add: nat_add_distrib)
qed

lemma py_get_nonneg: "0 \<le> i \<Longrightarrow> i < int (length xs) \<Longrightarrow> py_get xs i = Inr (xs ! nat i)"
  by (simp add: py_get_def)

lemma well_shaped_slot:
  "well_shaped B dims cont x \<Longrightarrow> k < length dims
     \<Longrightarrow> slot_ok B (int k \<in> set cont) (dims ! k) (x ! k)"
  by (simp add: well_shaped_def list_all_iff)

lemma dense_cat_well_shaped:
  assumes "continuous_feas_index m = cont" "cont \<noteq> []" "valid_config dims cont"
    and "well_shaped B dims cont x" "0 < B" "emap (py_get dims) cont = Inr ds"
  shows "\<exists>dc. dense_cat_of m x = Inr (False, mat dc) \<and> is_mat B (nat (sum_list ds)) dc"
proof -
  have len: "length x = length dims" using assms(4) by (simp add: well_shaped_def)
  have rng: "0 \<le> i \<and> i < int (length dims)" if "i \<in> set cont" for i
    using assms(3) that by (simp add: valid_config_def list_all_iff)
  define rws where "rws = (\<lambda>i. case x ! nat i of FloatT t \<Rightarrow> map leaves (children t)
                                | LongT _ \<Rightarrow> [])"
  have slot: "x ! nat i = FloatT (mat (rws i)) \<and> is_mat B (nat (dims ! nat i)) (rws i)"
    if "i \<in> set cont" for i
  proof -
    from rng [OF that] have k: "nat i < length dims" and "int (nat i) = i"
      by (simp_all add: nat_less_iff)
    with well_shaped_slot [OF assms(4) k] that
    have "slot_ok B True (dims ! nat i) (x ! nat i)" by simp
    then show ?thesis
      by (auto simp: slot_ok_def rws_def split: anyt.splits)
  qed
  have feas: "emap (py_get x) cont = Inr (map (\<lambda>i. x ! nat i) cont)"
    using rng len by (intro emap_all_Inr) (simp add: py_get_nonneg)
  have floats: "map to_float (map (\<lambda>i. x ! nat i) cont) = map mat (map rws cont)"
    using slot by (simp add: to_float_def comp_def cong: map_cong)
  have notlong: "\<not> list_all is_long (map (\<lambda>i. x ! nat i) cont)"
  proof -
    from assms(2) obtain i where i: "i \<in> set cont" by (cases cont) auto
    from slot [OF i] have "\<not> is_long (x ! nat i)" by (simp add: is_long_def)
    with i show ?thesis by (auto simp: list_all_iff)
  qed
  let ?dc = "map (\<lambda>b. concat (map (\<lambda>m. m ! b) (map rws cont))) [0..<B]"
  have cat: "torch_cat1 (map mat (map rws cont)) = Inr (mat ?dc)"
    using assms(2,5) slot by (intro torch_cat1_mats) (auto simp: is_mat_def)
  have ds: "ds = map (\<lambda>i. dims ! nat i) cont"
  proof -
    have "emap (py_get dims) cont = Inr (map (\<lambda>i. dims ! nat i) cont)"
      using rng by (intro emap_all_Inr) (simp add: py_get_nonneg)
    with assms(6) show ?thesis by simp
  qed
  have nonneg: "\<forall>w \<in> set ds. 0 \<le> w"
  proof -
    have "0 \<le> dims ! nat i" if "i \<in> set cont" for i
    proof -
      from rng [OF that] have "nat i < length dims" by (simp add: nat_less_iff)
      then have "dims ! nat i \<in> set dims" by simp
      with assms(3) show ?thesis by (simp add: valid_config_def list_all_iff)
    qed
    then show ?thesis by (auto simp: ds)
  qed
  have width: "length (concat (map (\<lambda>m. m ! b) (map rws cont))) = nat (sum_list ds)"
    if "b < B" for b
  proof -
    have "map (\<lambda>i. length (rws i ! b)) cont = map (\<lambda>i. nat (dims ! nat i)) cont"
    proof (intro map_cong refl)
      fix i assume "i \<in> set cont"
      from slot [OF this] have "is_mat B (nat (dims ! nat i)) (rws i)" by simp
      from is_mat_row [OF this that] show "length (rws i ! b) = nat (dims ! nat i)" .
    qed
    then have "sum_list (map (\<lambda>i. length (rws i ! b)) cont)
        = sum_list (map (\<lambda>i. nat (dims ! nat i)) cont)"
      by (rule arg_cong)
    also have "\<dots> = sum_list (map nat ds)" by (simp add: ds comp_def)
    also have "\<dots> = nat (sum_list ds)" using nonneg by (rule sum_list_nat)
    finally show ?thesis by (simp only: length_concat map_map comp_def)
  qed
  have "is_mat B (nat (sum_list ds)) ?dc"
    using assms(5) width by (simp add: is_mat_def list_all_iff)
  moreover have "dense_cat_of m x = Inr (False, mat ?dc)"
    unfolding dense_cat_of_def assms(1)
    by (simp only: feas floats cat notlong ebind_simps)
  ultimately show ?thesis by blast
qed

lemma count_categorical:
  assumes "valid_config dims cont"
  shows "length (filter (\<lambda>(index, input_dim). int index \<notin> set cont)
                   (zip [0..<length dims] dims)) = length dims - length cont"
proof -
  let ?n = "length dims"
  have fst_filter: "length (filter (\<lambda>(index, input_dim). int index \<notin> set cont) ps)
      = length (filter (\<lambda>i. int i \<notin> set cont) (map fst ps))" for ps :: "(nat \<times> int) list"
    by (induction ps) auto
  have "length (filter (\<lambda>(index, input_dim). int index \<notin> set cont) (zip [0..<?n] dims))
      = length (filter (\<lambda>i. int i \<notin> set cont) (map fst (zip [0..<?n] dims)))"
    by (rule fst_filter)
  also have "\<dots> = length (filter (\<lambda>i. int i \<notin> set cont) [0..<?n])"
    by simp
  also have "\<dots> = card {i. i < ?n \<and> int i \<notin> set cont}"
  proof -
    have "{i. i < ?n \<and> int ([0..<?n] ! i) \<notin> set cont} = {i. i < ?n \<and> int i \<notin> set cont}"
      by auto
    then show ?thesis by (simp add: length_filter_conv_card)
  qed
  also have "{i. i < ?n \<and> int i \<notin> set cont} = {..<?n} - nat ` set cont"
  proof -
    have "int k \<in> set cont \<longleftrightarrow> k \<in> nat ` set cont" for k
    proof
      assume "int k \<in> set cont"
      then have "nat (int k) \<in> nat ` set cont" by (rule imageI)
      then show "k \<in> nat ` set cont" by simp
    next
      assume "k \<in> nat ` set cont"
      then obtain i where i: "i \<in> set cont" "k = nat i" by auto
      with assms have "0 \<le> i" by (simp add: valid_config_def list_all_iff)
      with i show "int k \<in> set cont" by simp
    qed
    then show ?thesis by auto
  qed
  also have "card ({..<?n} - nat ` set cont) = card {..<?n} - card (nat ` set cont)"
    using assms by (intro card_Diff_subset) (auto simp: valid_config_def list_all_iff)
  also have "card (nat ` set cont) = card (set cont)"
  proof (intro card_image inj_onI)
    fix i j assume ij: "i \<in> set cont" "j \<in> set cont" "nat i = nat j"
    with assms have "0 \<le> i" "0 \<le> j" by (simp_all add: valid_config_def list_all_iff)
    with ij(3) show "i = j" by (simp add: nat_eq_iff)
  qed
  also have "card (set cont) = length cont"
    using assms by (simp add: valid_config_def distinct_card)
  finally show ?thesis by simp
qed

lemma valid_config_length:
  assumes "valid_config dims cont"
  shows "length cont \<le> length dims"
proof -
  have "nat ` set cont \<subseteq> {..<length dims}"
    using assms by (auto simp: valid_config_def list_all_iff nat_less_iff)
  then have "card (nat ` set cont) \<le> length dims"
    using card_mono [of "{..<length dims}" "nat ` set cont"] by simp
  moreover have "card (nat ` set cont) = card (set cont)"
  proof (intro card_image inj_onI)
    fix i j assume ij: "i \<in> set cont" "j \<in> set cont" "nat i = nat j"
    with assms have "0 \<le> i" "0 \<le> j" by (simp_all add: valid_config_def list_all_iff)
    with ij(3) show "i = j" by (simp add: nat_eq_iff)
  qed
  moreover have "card (set cont) = length cont"
    using assms by (simp add: valid_config_def distinct_card)
  ultimately show ?thesis by simp
qed

lemma emb_dim_nonneg:
  assumes "emap (\<lambda>(index, input_dim).
              ebind (nn_Embedding (w index) input_dim K) (\<lambda>e. Inr (index, e))) slots = Inr es"
    and "slots \<noteq> []"
  shows "0 \<le> K"
proof -
  from assms(2) obtain s rest where "slots = s # rest" by (cases slots) auto
  with assms(1) show ?thesis
    by (cases s) (auto simp: ebind_eq_Inr nn_Embedding_def split: if_splits)
qed

lemma dnn_layer_on_mat:
  assumes "dnn_stack r 0 spd units = Inr ls" "dnn_layer m = butlast ls"
    and "is_mat B (nat spd) inp"
  shows "\<exists>z. sequential_opt (dnn_layer m) (Some (mat inp)) = Inr (Some z)"
proof -
  from dnn_stack_sequential [OF assms(1,3)] obtain a' where
    "sequential ls (mat inp) = Inr (mat a')" by blast
  from sequential_butlast [OF this] obtain z where
    "sequential (butlast ls) (mat inp) = Inr z" ..
  then show ?thesis by (simp add: sequential_opt_def assms(2))
qed

lemma dense_branch:
  assumes "continuous_feas_index m = cont" "cont \<noteq> []" "valid_config dims cont"
    and "well_shaped B dims cont x" "0 < B" "emap (py_get dims) cont = Inr ds"
    and "nn_Linear w1 b1 (sum_list ds) 1 = Inr l1"
    and "nn_Linear w2 b2 (sum_list ds) spd = Inr l2"
  shows "\<exists>dcat r1 dout. dense_cat_of m x = Inr dcat
           \<and> on_dense dcat (linear_fwd l1) = Inr (mat r1) \<and> is_mat B 1 r1
           \<and> on_dense dcat (sequential [Linear l2, ReLU]) = Inr (mat dout)
           \<and> is_mat B (nat spd) dout"
proof -
  from dense_cat_well_shaped [OF assms(1-6)] obtain dc where
    dc: "dense_cat_of m x = Inr (False, mat dc)" and m: "is_mat B (nat (sum_list ds)) dc"
    by blast
  from assms(7) have l1: "in_features l1 = nat (sum_list ds)" "out_features l1 = 1"
    by (auto simp: nn_Linear_def split: if_splits)
  from assms(8) have l2: "in_features l2 = nat (sum_list ds)" "out_features l2 = nat spd"
    by (auto simp: nn_Linear_def split: if_splits)
  have f1: "linear_fwd l1 (mat dc) = Inr (mat (map (affine l1) dc))"
    and m1: "is_mat B 1 (map (affine l1) dc)"
    using linear_fwd_mat [of B l1 dc] m l1 by simp_all
  have f2: "linear_fwd l2 (mat dc) = Inr (mat (map (affine l2) dc))"
    and m2: "is_mat B (nat spd) (map (affine l2) dc)"
    using linear_fwd_mat [of B l2 dc] m l2 by simp_all
  have "sequential [Linear l2, ReLU] (mat dc)
      = Inr (mat (map (map (max 0)) (map (affine l2) dc)))"
    by (simp add: f2 relu_mat(1))
  moreover have "is_mat B (nat spd) (map (map (max 0)) (map (affine l2) dc))"
    using m2 by (rule relu_mat(2))
  ultimately show ?thesis
    using dc f1 m1 by (auto simp: on_dense_def)
qed

lemma forward_cont_only:
  assumes "length x = input_size m" "\<not> has_cat_feas m" "has_cont_feas m"
    and "dense_cat_of m x = Inr dcat"
    and "fm_1st_order_dense_emb_layers m = Some l1" "dense_layer m = Some ls"
    and "on_dense dcat (linear_fwd l1) = Inr r1"
    and "on_dense dcat (sequential ls) = Inr dout"
    and "sequential_opt (dnn_layer m) (Some dout) = Inr z"
  shows "DeepFMBase_forward m (ArgList x) = Inr [z, Some r1, Some (Sc 0), Some (Sc 0)]"
  using assms by (simp add: DeepFMBase_forward_def attr_def plus_opt_def)

lemma forward_cat_only:
  assumes "length x = input_size m" "has_cat_feas m" "\<not> has_cont_feas m"
    and "lookups (fm_1st_order_sparse_emb_layers m) x = Inr res1"
    and "torch_cat1 res1 = Inr cc" "torch_sum1 True cc = Inr c1"
    and "lookups (fm_2nd_order_sparse_emb_layers m) x = Inr res2"
    and "fm_2nd_stats res2 = Inr (s, q, flat)"
    and "sequential_opt (dnn_layer m) (Some flat) = Inr z"
  shows "DeepFMBase_forward m (ArgList x) = Inr [z, Some c1, Some s, Some q]"
  using assms by (simp add: DeepFMBase_forward_def)

lemma forward_mixed:
  assumes "length x = input_size m" "has_cat_feas m" "has_cont_feas m"
    and "lookups (fm_1st_order_sparse_emb_layers m) x = Inr res1"
    and "torch_cat1 res1 = Inr cc" "torch_sum1 True cc = Inr c1"
    and "lookups (fm_2nd_order_sparse_emb_layers m) x = Inr res2"
    and "fm_2nd_stats res2 = Inr (s, q, flat)"
    and "dense_cat_of m x = Inr dcat"
    and "fm_1st_order_dense_emb_layers m = Some l1" "dense_layer m = Some ls"
    and "on_dense dcat (linear_fwd l1) = Inr r1"
    and "on_dense dcat (sequential ls) = Inr dout"
    and "torch_add c1 r1 = Inr p1" "torch_add flat dout = Inr inp"
    and "sequential_opt (dnn_layer m) (Some inp) = Inr z"
  shows "DeepFMBase_forward m (ArgList x) = Inr [z, Some p1, Some s, Some q]"
  using assms by (simp add: DeepFMBase_forward_def attr_def plus_opt_def)

lemma base_forward_returns:
  assumes init: "DeepFMBase_init r a units c d = Inr m"
    and valid: "valid_config (dims_list a) (cont_list c)"
    and shaped: "well_shaped B (dims_list a) (cont_list c) x" and B: "0 < B"
  shows "\<exists>ys. DeepFMBase_forward m (ArgList x) = Inr ys \<and> length ys = 4
          \<and> (if has_cat_feas m
              then \<exists>s q. ys ! 2 = Some (mat s) \<and> ys ! 3 = Some (mat q)
                     \<and> is_mat B (nat d) s \<and> is_mat B (nat d) q
              else ys ! 2 = Some (Sc 0) \<and> ys ! 3 = Some (Sc 0))"
proof -
  define dims where "dims = dims_list a"
  define cont where "cont = cont_list c"
  define spd where "spd = (if length cont \<noteq> length dims
                   then (int (length dims) - int (length cont)) * d else d)"
  define slots where "slots = (if length cont \<noteq> length dims
                     then filter (\<lambda>(index, input_dim). int index \<notin> set cont)
                            (zip [0..<length dims] dims)
                     else [])"
  note im = init_model [OF init, folded dims_def cont_def, folded spd_def slots_def]
  have valid': "valid_config dims cont" and shaped': "well_shaped B dims cont x"
    using valid shaped by (simp_all add: dims_def cont_def)
  have len: "length x = input_size m"
    using shaped' im(1) by (simp add: well_shaped_def)
  from im(8) obtain ls where ls: "dnn_stack r 0 spd units = Inr ls"
    and dl: "dnn_layer m = butlast ls" by blast
  have dense: "\<exists>dcat r1 dout l1 l2. dense_cat_of m x = Inr dcat
           \<and> fm_1st_order_dense_emb_layers m = Some l1 \<and> dense_layer m = Some [Linear l2, ReLU]
           \<and> on_dense dcat (linear_fwd l1) = Inr (mat r1) \<and> is_mat B 1 r1
           \<and> on_dense dcat (sequential [Linear l2, ReLU]) = Inr (mat dout)
           \<and> is_mat B (nat spd) dout" if ne: "cont \<noteq> []"
  proof -
    from im(7) [OF ne] obtain ds l1 l2 where
      ds: "emap (py_get dims) cont = Inr ds"
      and l1: "nn_Linear (fst (dense1_init r)) (snd (dense1_init r)) (sum_list ds) 1 = Inr l1"
      and l2: "nn_Linear (fst (dense_init r)) (snd (dense_init r)) (sum_list ds) spd = Inr l2"
      and a1: "fm_1st_order_dense_emb_layers m = Some l1"
      and a2: "dense_layer m = Some [Linear l2, ReLU]"
      by blast
    from dense_branch [OF im(4) ne valid' shaped' B ds l1 l2] a1 a2
    show ?thesis by blast
  qed
  show ?thesis
  proof (cases "length cont \<noteq> length dims")
    case False
    then have nocat: "\<not> has_cat_feas m" using im(2) by simp
    have ne: "cont \<noteq> []" using False valid' by (auto simp: valid_config_def)
    then have hc: "has_cont_feas m" using im(3) by simp
    have spd: "spd = d" using False by (simp add: spd_def)
    from dense [OF ne] obtain dcat r1 dout l1 l2 where
      dc: "dense_cat_of m x = Inr dcat"
      and a1: "fm_1st_order_dense_emb_layers m = Some l1"
      and a2: "dense_layer m = Some [Linear l2, ReLU]"
      and f1: "on_dense dcat (linear_fwd l1) = Inr (mat r1)"
      and f2: "on_dense dcat (sequential [Linear l2, ReLU]) = Inr (mat dout)"
      and m2: "is_mat B (nat spd) dout"
      by blast
    from dnn_layer_on_mat [OF ls dl m2] obtain z where
      z: "sequential_opt (dnn_layer m) (Some (mat dout)) = Inr (Some z)" ..
    have "DeepFMBase_forward m (ArgList x)
        = Inr [Some z, Some (mat r1), Some (Sc 0), Some (Sc 0)]"
      using len nocat hc dc a1 a2 f1 f2 z by (rule forward_cont_only)
    with nocat show ?thesis by simp
  next
    case True
    then have cat: "has_cat_feas m" using im(2) by simp
    have le: "length cont \<le> length dims" using valid' by (rule valid_config_length)
    have slots: "slots = filter (\<lambda>(index, input_dim). int index \<notin> set cont)
                            (zip [0..<length dims] dims)"
      using True by (simp add: slots_def)
    have nslots: "length slots = length dims - length cont"
      unfolding slots using valid' by (rule count_categorical)
    then have slots_ne: "slots \<noteq> []" using True le by auto
    have d0: "0 \<le> d" using emb_dim_nonneg [OF im(6) slots_ne] .
    have "int (length dims) - int (length cont) = int (length slots)"
      using le by (simp add: nslots)
    then have "spd = int (length slots) * d"
      using True by (simp add: spd_def)
    then have spd: "nat spd = length slots * nat d"
      by (simp add: nat_mult_distrib)
    have in_slots: "i < length x \<and> slot_ok B False n (x ! i)" if "(i, n) \<in> set slots" for i n
    proof -
      from that have mem: "(i, n) \<in> set (zip [0..<length dims] dims)" and nc: "int i \<notin> set cont"
        by (simp_all add: slots)
      from mem have i: "i < length dims" and n: "n = dims ! i"
        by (auto simp: set_zip)
      from well_shaped_slot [OF shaped' i] nc n len im(1) i show ?thesis by simp
    qed
    have e1: "fm_1st_order_sparse_emb_layers m
        = map (\<lambda>(i, n). (i, \<lparr>num_embeddings = nat n, embedding_dim = 1,
                               table = emb1_init r i\<rparr>)) slots"
      using emb_layers_built [OF im(5)] by simp
    have e2: "fm_2nd_order_sparse_emb_layers m
        = map (\<lambda>(i, n). (i, \<lparr>num_embeddings = nat n, embedding_dim = nat d,
                               table = emb2_init r i\<rparr>)) slots"
      using emb_layers_built [OF im(6)] by simp
    from lookups_well_shaped [OF e1 in_slots B] obtain ms1 where
      lk1: "lookups (fm_1st_order_sparse_emb_layers m) x = Inr (map mat ms1)"
      and n1: "length ms1 = length slots" and mm1: "\<forall>m \<in> set ms1. is_mat B 1 m"
      by blast
    from lookups_well_shaped [OF e2 in_slots B] obtain es where
      lk2: "lookups (fm_2nd_order_sparse_emb_layers m) x = Inr (map mat es)"
      and n2: "length es = length slots" and mm2: "\<forall>m \<in> set es. is_mat B (nat d) m"
      by blast
    have ms1_ne: "ms1 \<noteq> []" and es_ne: "es \<noteq> []" using n1 n2 slots_ne by auto
    from cat_sum_columns [OF ms1_ne mm1] obtain c1 where
      "ebind (torch_cat1 (map mat ms1)) (torch_sum1 True) = Inr (mat c1)" and mc1: "is_mat B 1 c1"
      by blast
    then obtain cc where cc: "torch_cat1 (map mat ms1) = Inr cc"
      and c1: "torch_sum1 True cc = Inr (mat c1)"
      by (auto simp: ebind_eq_Inr)
    from fm_2nd_stats_flat [OF es_ne mm2] obtain flat where
      st: "fm_2nd_stats (map mat es)
         = Inr (mat (mats_sum B (nat d) es), mat (mats_sum B (nat d) (map squares es)), mat flat)"
      and "is_mat B (length es * nat d) flat"
      by blast
    then have mflat: "is_mat B (nat spd) flat"
      by (simp only: spd n2)
    have stats: "is_mat B (nat d) (mats_sum B (nat d) es)"
      "is_mat B (nat d) (mats_sum B (nat d) (map squares es))"
      using B by (simp_all add: is_mat_mats_sum)
    show ?thesis
    proof (cases "cont = []")
      case True
      then have nc: "\<not> has_cont_feas m" using im(3) by simp
      from dnn_layer_on_mat [OF ls dl mflat] obtain z where
        z: "sequential_opt (dnn_layer m) (Some (mat flat)) = Inr (Some z)" ..
      have "DeepFMBase_forward m (ArgList x)
          = Inr [Some z, Some (mat c1), Some (mat (mats_sum B (nat d) es)),
                 Some (mat (mats_sum B (nat d) (map squares es)))]"
        using len cat nc lk1 cc c1 lk2 st z by (rule forward_cat_only)
      with cat stats show ?thesis by auto
    next
      case False
      then have hc: "has_cont_feas m" using im(3) by simp
      from dense [OF False] obtain dcat r1 dout l1 l2 where
        dc: "dense_cat_of m x = Inr dcat"
        and a1: "fm_1st_order_dense_emb_layers m = Some l1"
        and a2: "dense_layer m = Some [Linear l2, ReLU]"
        and f1: "on_dense dcat (linear_fwd l1) = Inr (mat r1)" and m1: "is_mat B 1 r1"
        and f2: "on_dense dcat (sequential [Linear l2, ReLU]) = Inr (mat dout)"
        and m2: "is_mat B (nat spd) dout"
        by blast
      from torch_add_mats [OF mc1 m1] obtain p1 where
        p1: "torch_add (mat c1) (mat r1) = Inr (mat p1)" by blast
      from torch_add_mats [OF mflat m2] obtain inp where
        inp: "torch_add (mat flat) (mat dout) = Inr (mat inp)" and minp: "is_mat B (nat spd) inp"
        by blast
      from dnn_layer_on_mat [OF ls dl minp] obtain z where
        z: "sequential_opt (dnn_layer m) (Some (mat inp)) = Inr (Some z)" ..
      have "DeepFMBase_forward m (ArgList x)
          = Inr [Some z, Some (mat p1), Some (mat (mats_sum B (nat d) es)),
                 Some (mat (mats_sum B (nat d) (map squares es)))]"
        using len cat hc lk1 cc c1 lk2 st dc a1 a2 f1 f2 p1 inp z by (rule forward_mixed)
      with cat stats show ?thesis by auto
    qed
  qed
qed

lemma init_valid_config:
  assumes valid: "valid_config (dims_list a) (cont_list c)"
    and d: "0 \<le> d" and units: "list_all (\<lambda>u. 0 \<le> u) units"
  shows "\<exists>m. DeepFMBase_init r a units c d = Inr m"
proof -
  define dims where "dims = dims_list a"
  define cont where "cont = cont_list c"
  define spd where "spd = (if length cont \<noteq> length dims
                   then (int (length dims) - int (length cont)) * d else d)"
  define slots where "slots = (if length cont \<noteq> length dims
                     then filter (\<lambda>(index, input_dim). int index \<notin> set cont)
                            (zip [0..<length dims] dims)
                     else [])"
  have valid': "valid_config dims cont" using valid by (simp add: dims_def cont_def)
  have le: "length cont \<le> length dims" using valid' by (rule valid_config_length)
  have spd0: "0 \<le> spd" using le d by (simp add: spd_def)
  have nonneg: "\<forall>p \<in> set slots. 0 \<le> snd p"
    using valid' by (auto simp: slots_def valid_config_def list_all_iff dest: set_zip_rightD)
  obtain e1 where e1: "emap (\<lambda>(index, input_dim).
            ebind (nn_Embedding (emb1_init r index) input_dim 1) (\<lambda>e. Inr (index, e))) slots
          = Inr e1"
    using emap_embedding_ok [OF nonneg, of 1 "emb1_init r"] by auto
  obtain e2 where e2: "emap (\<lambda>(index, input_dim).
            ebind (nn_Embedding (emb2_init r index) input_dim d) (\<lambda>e. Inr (index, e))) slots
          = Inr e2"
    using emap_embedding_ok [OF nonneg d, of "emb2_init r"] by auto
  obtain ls where ls: "dnn_stack r 0 spd units = Inr ls"
    using dnn_stack_ok [OF spd0 units] by blast
  have rng: "0 \<le> i \<and> i < int (length dims)" if "i \<in> set cont" for i
    using valid' that by (simp add: valid_config_def list_all_iff)
  have ds: "emap (py_get dims) cont = Inr (map (\<lambda>i. dims ! nat i) cont)"
    using rng by (intro emap_all_Inr) (simp add: py_get_nonneg)
  have "0 \<le> dims ! nat i" if "i \<in> set cont" for i
  proof -
    from rng [OF that] have "nat i < length dims" by (simp add: nat_less_iff)
    then have "dims ! nat i \<in> set dims" by simp
    with valid' show ?thesis by (simp add: valid_config_def list_all_iff)
  qed
  then have cd0: "0 \<le> sum_list (map (\<lambda>i. dims ! nat i) cont)"
    by (intro sum_list_nonneg) auto
  show ?thesis
  proof (cases "length cont = length dims")
    case True
    with valid' have ne: "cont \<noteq> []" "dims \<noteq> []" by (auto simp: valid_config_def)
    from True have "spd = d" "slots = []" by (simp_all add: spd_def slots_def)
    with ls d have "dnn_stack r 0 d units = Inr ls" by simp
    with True ne ds cd0 d show ?thesis
      unfolding DeepFMBase_init_def Let_def dims_list_def [symmetric] cont_list_def [symmetric]
        dims_def [symmetric] cont_def [symmetric]
      by (simp add: nn_Linear_def)
  next
    case False
    then have sl: "slots = filter (\<lambda>(index, input_dim). int index \<notin> set cont)
                            (zip [0..<length dims] dims)"
      and sp: "spd = (int (length dims) - int (length cont)) * d"
      by (simp_all add: slots_def spd_def)
    from spd0 have sp0: "\<not> (int (length dims) - int (length cont)) * d < 0"
      by (simp add: sp)
    show ?thesis
    proof (cases "cont = []")
      case True
      with False e1 e2 ls show ?thesis
        unfolding DeepFMBase_init_def Let_def dims_list_def [symmetric] cont_list_def [symmetric]
          dims_def [symmetric] cont_def [symmetric] sl sp
        by simp
    next
      case ne: False
      with False e1 e2 ls ds cd0 sp0 show ?thesis
        unfolding DeepFMBase_init_def Let_def dims_list_def [symmetric] cont_list_def [symmetric]
          dims_def [symmetric] cont_def [symmetric] sl sp
        by (simp add: nn_Linear_def)
    qed
  qed
qed

text \<open>
  C5.  A valid configuration has at least one slot, no negative size, and distinct
  continuous indices among the slot positions; it is categorical-only, continuous-only
  or mixed.  Construction then succeeds, \<open>output_num\<close> is 4, and on every well-shaped
  input of a non-empty batch (an index vector per categorical slot, a float matrix of
  the slot's width per continuous slot) \<open>forward\<close> returns a list of exactly four
  elements.  With categorical features the third and fourth element are matrices of
  \<open>B\<close> rows and the embedding dimension; without, they are the tensor of dimension 0
  holding 0 (its shape is the empty list), not a vector.  Whatever the model and the
  input, a list that \<open>forward\<close> returns has four elements and, without categorical
  features, the sentinel in third and fourth place.
\<close>

theorem base_forward_returns_four:
  assumes "valid_config (dims_list a) (cont_list c)"
    and "0 \<le> d" "list_all (\<lambda>u. 0 \<le> u) units"
    and "well_shaped B (dims_list a) (cont_list c) x" "0 < B"
  shows "(\<exists>m ys. DeepFMBase_init r a units c d = Inr m \<and> output_num m = 4
            \<and> has_cat_feas m = (length (cont_list c) \<noteq> length (dims_list a))
            \<and> DeepFMBase_forward m (ArgList x) = Inr ys \<and> length ys = 4
            \<and> (if has_cat_feas m
                then \<exists>s q. ys ! 2 = Some (mat s) \<and> ys ! 3 = Some (mat q)
                       \<and> is_mat B (nat d) s \<and> is_mat B (nat d) q
                else ys ! 2 = Some (Sc 0) \<and> ys ! 3 = Some (Sc 0)
                       \<and> shape (Sc (0::real)) = []))
       \<and> output_num m' = 4
       \<and> (DeepFMBase_forward m' arg = Inr ys' \<longrightarrow>
            length ys' = 4
            \<and> (\<not> has_cat_feas m' \<longrightarrow> ys' ! 2 = Some (Sc 0) \<and> ys' ! 3 = Some (Sc 0)))"
proof (intro conjI impI)
  from init_valid_config [OF assms(1-3)] obtain m where
    m: "DeepFMBase_init r a units c d = Inr m" ..
  from base_forward_returns [OF m assms(1,4,5)] obtain ys where
    ys: "DeepFMBase_forward m (ArgList x) = Inr ys" "length ys = 4"
    "if has_cat_feas m
     then \<exists>s q. ys ! 2 = Some (mat s) \<and> ys ! 3 = Some (mat q)
            \<and> is_mat B (nat d) s \<and> is_mat B (nat d) q
     else ys ! 2 = Some (Sc 0) \<and> ys ! 3 = Some (Sc 0)"
    by blast
  have "has_cat_feas m = (length (cont_list c) \<noteq> length (dims_list a))"
    using init_model(2) [OF m] .
  with m ys show "\<exists>m ys. DeepFMBase_init r a units c d = Inr m \<and> output_num m = 4
            \<and> has_cat_feas m = (length (cont_list c) \<noteq> length (dims_list a))
            \<and> DeepFMBase_forward m (ArgList x) = Inr ys \<and> length ys = 4
            \<and> (if has_cat_feas m
                then \<exists>s q. ys ! 2 = Some (mat s) \<and> ys ! 3 = Some (mat q)
                       \<and> is_mat B (nat d) s \<and> is_mat B (nat d) q
                else ys ! 2 = Some (Sc 0) \<and> ys ! 3 = Some (Sc 0)
                       \<and> shape (Sc (0::real)) = [])"
    by (intro exI [of _ m] exI [of _ ys]) (auto simp: output_num_def)
next
  show "output_num m' = 4" by (simp add: output_num_def)
next
  assume "DeepFMBase_forward m' arg = Inr ys'"
  then show "length ys' = 4" by (rule base_forward_length)
next
  assume "DeepFMBase_forward m' arg = Inr ys'" "\<not> has_cat_feas m'"
  then show "ys' ! 2 = Some (Sc 0)" "ys' ! 3 = Some (Sc 0)"
    using base_forward_sentinel by blast+
qed

theorem base_forward_returns_four_witness:
  "valid_config (dims_list (DimList [3, 1])) (cont_list (Some [1]))
   \<and> well_shaped 2 (dims_list (DimList [3, 1])) (cont_list (Some [1]))
        [LongT (vec [1, 2]), FloatT (mat [[3], [-1]])]
   \<and> DeepFMBase_init ex_init (DimList [3, 1]) [4, 3] (Some [1]) 2 = Inr deep_party
   \<and> has_cat_feas deep_party
   \<and> DeepFMBase_forward deep_party (ArgList [LongT (vec [1, 2]), FloatT (mat [[3], [-1]])])
       = Inr [Some (mat [[36, 36, 36], [20, 20, 20]]), Some (mat [[5], [2]]),
              Some (mat [[1, 2], [2, 3]]), Some (mat [[1, 4], [4, 9]])]
   \<and> DeepFMBase_forward cont_party (ArgList [FloatT (mat [[3]])])
       = Inr [Some (mat [[3, 3]]), Some (mat [[3]]), Some (Sc 0), Some (Sc 0)]
   \<and> \<not> has_cat_feas cont_party"
proof -
  let ?x = "[LongT (vec [1, 2]), FloatT (mat [[3], [-1]])]"
  have v: "valid_config (dims_list (DimList [3, 1])) (cont_list (Some [1]))"
    by code_simp
  have w: "well_shaped 2 (dims_list (DimList [3, 1])) (cont_list (Some [1])) ?x"
    by code_simp
  have u: "list_all (\<lambda>u. 0 \<le> u) [4, 3 :: int]" by simp
  have d: "(0::int) \<le> 2" and b: "0 < (2::nat)" by simp_all
  from base_forward_returns_four [OF v d u w b, where r = ex_init, THEN conjunct1]
  obtain m ys where m: "DeepFMBase_init ex_init (DimList [3, 1]) [4, 3] (Some [1]) 2 = Inr m"
    and cat: "has_cat_feas m = (length (cont_list (Some [1])) \<noteq> length (dims_list (DimList [3, 1])))"
    and ys: "DeepFMBase_forward m (ArgList ?x) = Inr ys" "length ys = 4"
    by blast
  from m have dp: "deep_party = m" by (simp add: deep_party_def)
  have run: "DeepFMBase_forward deep_party (ArgList ?x)
       = Inr [Some (mat [[36, 36, 36], [20, 20, 20]]), Some (mat [[5], [2]]),
              Some (mat [[1, 2], [2, 3]]), Some (mat [[1, 4], [4, 9]])]"
    by code_simp
  have cont: "DeepFMBase_forward cont_party (ArgList [FloatT (mat [[3]])])
       = Inr [Some (mat [[3, 3]]), Some (mat [[3]]), Some (Sc 0), Some (Sc 0)]"
    by code_simp
  have nocat: "\<not> has_cat_feas cont_party" by code_simp
  from cat dp have "has_cat_feas deep_party"
    by (simp add: cont_list_def dims_list_def)
  with v w m dp run cont nocat show ?thesis by simp
qed

end
